theory Spec2Isabelle
  imports Main "HOL-Library.AList"
begin

section \<open>Synchronator.py: the data\<close>

text \<open>
  The program is written for Python 2 (Pythonista): \<^verbatim>\<open>dict.keys()\<close> returns a list that is
  a snapshot of the keys, so a dictionary can lose entries while its old key list is being
  walked, and a file read in mode \<^verbatim>\<open>'r'\<close> gives a byte string. A Python byte string is a
  \<^typ>\<open>string\<close> here (an Isabelle \<^typ>\<open>char\<close> is one byte).

  The two dictionaries of \<^verbatim>\<open>DropboxState\<close> are association lists: a lookup reads the first
  binding of a key, and \<^verbatim>\<open>keys()\<close> lists every key once, in the order of the list (Python
  fixes no order). The metadata dictionary \<^verbatim>\<open>{'rev': ..., 'modified': ...}\<close> is a record.
  Modification times are floats that the program only compares with \<^verbatim>\<open>>\<close>; they are integers here.
\<close>

type_synonym path = string
type_synonym bytes = string

record meta =
  revision :: string
  modified :: int

type_synonym dict = "(path \<times> meta) list"

record DropboxState =
  local_files :: dict
  remote_files :: dict

datatype errno = ENOENT | EISDIR | ENOTDIR | EEXIST

datatype error =
    KeyError string
  | AttributeError string
  | OSError errno string
  | IOError errno string
  | ApiError string string
  | ConnectionError

type_synonym 'a result = "error + 'a"

definition has_key :: "dict \<Rightarrow> path \<Rightarrow> bool" where
  "has_key d k = (map_of d k \<noteq> None)"

definition dict_keys :: "dict \<Rightarrow> path list" where
  "dict_keys d = remdups (map fst d)"

definition dict_set :: "path \<Rightarrow> meta \<Rightarrow> dict \<Rightarrow> dict" where
  "dict_set k v d = AList.update k v d"

text \<open>\<^verbatim>\<open>del d[k]\<close> raises KeyError when the key is missing.\<close>

definition dict_del :: "path \<Rightarrow> dict \<Rightarrow> dict result" where
  "dict_del k d = (if has_key d k then Inr (AList.delete k d) else Inl (KeyError k))"

text \<open>\<^verbatim>\<open>DropboxState.__init__\<close>\<close>

definition init_state :: DropboxState where
  "init_state = \<lparr>local_files = [], remote_files = []\<rparr>"

section \<open>Strings and paths (str and posixpath)\<close>

definition startswith :: "string \<Rightarrow> string \<Rightarrow> bool" where
  "startswith s p = (take (length p) s = p)"

definition endswith :: "string \<Rightarrow> string \<Rightarrow> bool" where
  "endswith s p = (length p \<le> length s \<and> drop (length s - length p) s = p)"

text \<open>\<^verbatim>\<open>s.split(sep)\<close> with a one-character separator: empty parts are kept.\<close>

primrec split_on :: "char \<Rightarrow> string \<Rightarrow> string list" where
  "split_on c [] = [[]]"
| "split_on c (x # xs) =
     (if x = c then [] # split_on c xs
      else (case split_on c xs of [] \<Rightarrow> [[x]] | y # ys \<Rightarrow> (x # y) # ys))"

definition os_path_join :: "string \<Rightarrow> string \<Rightarrow> string" where
  "os_path_join a b =
     (if startswith b ''/'' then b
      else if a = [] \<or> endswith a ''/'' then a @ b
      else a @ ''/'' @ b)"

definition rstrip_slash :: "string \<Rightarrow> string" where
  "rstrip_slash s = rev (dropWhile (\<lambda>c. c = CHR ''/'') (rev s))"

definition os_path_split :: "string \<Rightarrow> string \<times> string" where
  "os_path_split p =
     (let tail = rev (takeWhile (\<lambda>c. c \<noteq> CHR ''/'') (rev p));
          head = take (length p - length tail) p
      in (if head \<noteq> [] \<and> \<not> list_all (\<lambda>c. c = CHR ''/'') head then rstrip_slash head else head,
          tail))"

text \<open>
  The components a path names below the synchronised directory (the working directory):
  empty components and \<^verbatim>\<open>.\<close> name nothing. (\<^verbatim>\<open>..\<close> and absolute paths are not resolved:
  they do not occur in the paths the program builds from a Dropbox listing or from
  \<^verbatim>\<open>os.walk('.')\<close>.)
\<close>

definition comps :: "string \<Rightarrow> string list" where
  "comps p = filter (\<lambda>c. c \<noteq> [] \<and> c \<noteq> ''.'') (split_on CHR ''/'' p)"

section \<open>The world outside the program\<close>

text \<open>
  The local file system is a table from component lists to nodes; the Dropbox app folder
  is a table from Dropbox paths (the strings the API receives and lists, \<^verbatim>\<open>/docs/a.txt\<close>) to
  files and folders. The trace records, in order, what the program printed and every call
  it made to the Dropbox client and to the functions of \<^verbatim>\<open>os\<close> that change the disk.
\<close>

datatype node = File (mtime: int) (content: bytes) | Dir (mtime: int)

datatype rnode = RFile string bytes | RFolder

datatype metadata =
    FileMetadata (path_display: string) (rev_of: string)
  | FolderMetadata (path_display: string)

datatype write_mode = WriteMode_add | WriteMode_overwrite

datatype upload_session_cursor = UploadSessionCursor (session_id: string) (offset: nat)

datatype commit_info = CommitInfo string write_mode bool

datatype dbx_call =
    Files_list_folder string bool
  | Files_list_folder_continue "metadata list list"
  | Files_download_to_file string string
  | Files_upload bytes string write_mode bool
  | Files_upload_session_start bytes bool
  | Files_upload_session_append_v2 bytes "upload_session_cursor option" bool
  | Files_upload_session_finish bytes "upload_session_cursor option" commit_info
  | Files_delete string

datatype arg = Str string | Num nat

datatype event =
    Print "arg list"
  | Dbx dbx_call
  | Os_remove string
  | Os_makedirs string

record world =
  fs :: "(string list \<times> node) list"
  clock :: int
  store :: "(string \<times> rnode) list"
  rev_count :: nat
  sessions :: "(string \<times> bytes) list"
  online :: bool
  page_size :: nat
  trace :: "event list"

definition emit :: "event \<Rightarrow> world \<Rightarrow> world" where
  "emit e w = w\<lparr>trace := trace w @ [e]\<rparr>"

definition py_print :: "arg list \<Rightarrow> world \<Rightarrow> world" where
  "py_print args w = emit (Print args) w"

subsection \<open>os and os.path\<close>

definition node_at :: "world \<Rightarrow> string \<Rightarrow> node option" where
  "node_at w p =
     (if p = [] then None
      else if comps p = [] then Some (Dir 0)
      else map_of (fs w) (comps p))"

definition os_path_exists :: "string \<Rightarrow> world \<Rightarrow> bool" where
  "os_path_exists p w = (node_at w p \<noteq> None)"

definition os_path_isfile :: "string \<Rightarrow> world \<Rightarrow> bool" where
  "os_path_isfile p w = (case node_at w p of Some (File t c) \<Rightarrow> True | _ \<Rightarrow> False)"

definition os_path_getmtime :: "string \<Rightarrow> world \<Rightarrow> int result" where
  "os_path_getmtime p w =
     (case node_at w p of None \<Rightarrow> Inl (OSError ENOENT p) | Some n \<Rightarrow> Inr (mtime n))"

definition os_path_getsize :: "string \<Rightarrow> world \<Rightarrow> nat result" where
  "os_path_getsize p w =
     (case node_at w p of
        None \<Rightarrow> Inl (OSError ENOENT p)
      | Some (Dir t) \<Rightarrow> Inr 4096
      | Some (File t c) \<Rightarrow> Inr (length c))"

text \<open>\<^verbatim>\<open>os.remove\<close> removes a file; it fails on a missing path and on a directory.\<close>

definition os_remove :: "string \<Rightarrow> world \<Rightarrow> unit result \<times> world" where
  "os_remove p w =
     (let w1 = emit (Os_remove p) w in
      case node_at w1 p of
        None \<Rightarrow> (Inl (OSError ENOENT p), w1)
      | Some (Dir t) \<Rightarrow> (Inl (OSError EISDIR p), w1)
      | Some (File t c) \<Rightarrow> (Inr (), w1\<lparr>fs := AList.delete (comps p) (fs w1)\<rparr>))"

text \<open>
  \<^verbatim>\<open>os.makedirs\<close> creates the missing ancestors and then the leaf; it fails when the
  leaf is there already and when an ancestor is a file.
\<close>

definition ancestors :: "string list \<Rightarrow> string list list" where
  "ancestors cs = map (\<lambda>n. take n cs) [1..<length cs]"

definition is_file_node :: "node option \<Rightarrow> bool" where
  "is_file_node n = (case n of Some (File t c) \<Rightarrow> True | _ \<Rightarrow> False)"

definition is_dir_node :: "node option \<Rightarrow> bool" where
  "is_dir_node n = (case n of Some (Dir t) \<Rightarrow> True | _ \<Rightarrow> False)"

definition os_makedirs :: "string \<Rightarrow> world \<Rightarrow> unit result \<times> world" where
  "os_makedirs p w =
     (let w1 = emit (Os_makedirs p) w; cs = comps p in
      if p = [] then (Inl (OSError ENOENT p), w1)
      else if list_ex (\<lambda>a. is_file_node (map_of (fs w1) a)) (ancestors cs)
        then (Inl (OSError ENOTDIR p), w1)
      else if cs = [] \<or> map_of (fs w1) cs \<noteq> None then (Inl (OSError EEXIST p), w1)
      else (Inr (),
            w1\<lparr>fs := fs w1 @ map (\<lambda>a. (a, Dir (clock w1)))
                           (filter (\<lambda>a. map_of (fs w1) a = None) (ancestors cs @ [cs])),
               clock := clock w1 + 1\<rparr>))"

text \<open>\<^verbatim>\<open>open(path, 'r').read()\<close>: the whole content of a file.\<close>

definition read_file :: "string \<Rightarrow> world \<Rightarrow> bytes result" where
  "read_file p w =
     (case node_at w p of
        None \<Rightarrow> Inl (IOError ENOENT p)
      | Some (Dir t) \<Rightarrow> Inl (IOError EISDIR p)
      | Some (File t c) \<Rightarrow> Inr c)"

text \<open>
  Writing a file (as the Dropbox client does when it downloads to a local path): the
  parent must be a directory and the path must not be one; the file gets the time of
  the clock, which then advances.
\<close>

definition write_file :: "string \<Rightarrow> bytes \<Rightarrow> world \<Rightarrow> unit result \<times> world" where
  "write_file p c w =
     (let cs = comps p in
      if cs = [] then (Inl (IOError (if p = [] then ENOENT else EISDIR) p), w)
      else if butlast cs \<noteq> [] \<and> \<not> is_dir_node (map_of (fs w) (butlast cs))
        then (Inl (IOError (if map_of (fs w) (butlast cs) = None then ENOENT else ENOTDIR) p), w)
      else if is_dir_node (map_of (fs w) cs) then (Inl (IOError EISDIR p), w)
      else (Inr (), w\<lparr>fs := AList.update cs (File (clock w) c) (fs w), clock := clock w + 1\<rparr>))"

text \<open>
  \<^verbatim>\<open>os.walk('.')\<close>: one triple (root, dirnames, filenames) for the top directory and for
  every directory of the table. The order of the triples and of the names is the order
  of the table (Python takes the order of \<^verbatim>\<open>os.listdir\<close>, which is arbitrary).
\<close>

definition fs_keys :: "world \<Rightarrow> string list list" where
  "fs_keys w = remdups (map fst (fs w))"

definition children :: "world \<Rightarrow> string list \<Rightarrow> string list list" where
  "children w d = filter (\<lambda>k. k \<noteq> [] \<and> butlast k = d) (fs_keys w)"

definition os_walk :: "world \<Rightarrow> (string \<times> string list \<times> string list) list" where
  "os_walk w =
     map (\<lambda>d. (foldl os_path_join ''.'' d,
               map last (filter (\<lambda>k. is_dir_node (map_of (fs w) k)) (children w d)),
               map last (filter (\<lambda>k. is_file_node (map_of (fs w) k)) (children w d))))
         ([] # filter (\<lambda>k. k \<noteq> [] \<and> is_dir_node (map_of (fs w) k)) (fs_keys w))"

subsection \<open>The Dropbox client\<close>

text \<open>
  The client (\<^verbatim>\<open>dbx\<close>, made by the module DropboxSetup from the Dropbox SDK) is not part
  of Synchronator.py. It is modelled by what its calls do to the app folder: every call is
  recorded in the trace and fails with a connection error when the world is offline; a
  download or a delete of a path that the folder does not hold fails with an API error; an
  upload gives the file a new revision. A listing is cut into pages, and the cursor of a
  page is the list of the pages that follow it.
\<close>

record list_folder_result =
  entries :: "metadata list"
  cursor :: "metadata list list"
  has_more :: bool

definition new_rev :: "nat \<Rightarrow> string" where
  "new_rev n = CHR ''r'' # replicate n (CHR ''1'')"

definition new_session :: "nat \<Rightarrow> string" where
  "new_session n = CHR ''s'' # replicate n (CHR ''1'')"

fun to_entry :: "string \<times> rnode \<Rightarrow> metadata" where
  "to_entry (k, RFile r c) = FileMetadata k r"
| "to_entry (k, RFolder) = FolderMetadata k"

definition below :: "string \<Rightarrow> bool \<Rightarrow> string \<Rightarrow> bool" where
  "below p recursive k =
     (startswith k (p @ ''/'') \<and> length (p @ ''/'') < length k \<and>
      (recursive \<or> CHR ''/'' \<notin> set (drop (length p + 1) k)))"

fun pages :: "nat \<Rightarrow> 'a list \<Rightarrow> 'a list list" where
  "pages n xs = (if xs = [] then [] else take (Suc n) xs # pages n (drop (Suc n) xs))"

declare pages.simps [simp del]

definition first_page :: "metadata list list \<Rightarrow> list_folder_result" where
  "first_page ps =
     (case ps of
        [] \<Rightarrow> \<lparr>entries = [], cursor = [], has_more = False\<rparr>
      | pg # rest \<Rightarrow> \<lparr>entries = pg, cursor = rest, has_more = (rest \<noteq> [])\<rparr>)"

definition files_list_folder ::
  "string \<Rightarrow> bool \<Rightarrow> world \<Rightarrow> list_folder_result result \<times> world" where
  "files_list_folder p recursive w =
     (let w1 = emit (Dbx (Files_list_folder p recursive)) w in
      if \<not> online w1 then (Inl ConnectionError, w1)
      else (Inr (first_page (pages (page_size w1)
              (map to_entry (filter (\<lambda>(k, n). below p recursive k) (AList.clearjunk (store w1)))))),
            w1))"

definition files_list_folder_continue ::
  "metadata list list \<Rightarrow> world \<Rightarrow> list_folder_result result \<times> world" where
  "files_list_folder_continue c w =
     (let w1 = emit (Dbx (Files_list_folder_continue c)) w in
      if \<not> online w1 then (Inl ConnectionError, w1) else (Inr (first_page c), w1))"

definition files_download_to_file :: "string \<Rightarrow> string \<Rightarrow> world \<Rightarrow> string result \<times> world" where
  "files_download_to_file download_path p w =
     (let w1 = emit (Dbx (Files_download_to_file download_path p)) w in
      if \<not> online w1 then (Inl ConnectionError, w1)
      else (case map_of (store w1) p of
              Some (RFile r c) \<Rightarrow>
                (case write_file download_path c w1 of
                   (Inl e, w2) \<Rightarrow> (Inl e, w2)
                 | (Inr u, w2) \<Rightarrow> (Inr r, w2))
            | _ \<Rightarrow> (Inl (ApiError ''path'' ''not_found''), w1)))"

text \<open>Committing a file to the folder: refused on a folder, and on any entry in mode add.\<close>

definition commit :: "bytes \<Rightarrow> string \<Rightarrow> write_mode \<Rightarrow> world \<Rightarrow> string result \<times> world" where
  "commit f p mode w =
     (if map_of (store w) p = Some RFolder \<or> (mode = WriteMode_add \<and> map_of (store w) p \<noteq> None)
      then (Inl (ApiError ''path'' ''conflict''), w)
      else (Inr (new_rev (rev_count w)),
            w\<lparr>store := AList.update p (RFile (new_rev (rev_count w)) f) (store w),
              rev_count := Suc (rev_count w)\<rparr>))"

definition files_upload ::
  "bytes \<Rightarrow> string \<Rightarrow> write_mode \<Rightarrow> bool \<Rightarrow> world \<Rightarrow> string result \<times> world" where
  "files_upload f p mode mute w =
     (let w1 = emit (Dbx (Files_upload f p mode mute)) w in
      if \<not> online w1 then (Inl ConnectionError, w1) else commit f p mode w1)"

definition files_upload_session_start :: "bytes \<Rightarrow> bool \<Rightarrow> world \<Rightarrow> string result \<times> world" where
  "files_upload_session_start f close w =
     (let w1 = emit (Dbx (Files_upload_session_start f close)) w in
      if \<not> online w1 then (Inl ConnectionError, w1)
      else (Inr (new_session (length (sessions w1))),
            w1\<lparr>sessions := AList.update (new_session (length (sessions w1))) f (sessions w1)\<rparr>))"

text \<open>The bytes a session holds when the cursor names it with the right offset.\<close>

definition session_at :: "upload_session_cursor option \<Rightarrow> world \<Rightarrow> (string \<times> bytes) result" where
  "session_at c w =
     (case c of
        None \<Rightarrow> Inl (AttributeError ''session_id'')
      | Some (UploadSessionCursor sid off) \<Rightarrow>
          (case map_of (sessions w) sid of
             None \<Rightarrow> Inl (ApiError ''lookup_failed'' ''not_found'')
           | Some sofar \<Rightarrow>
               if length sofar = off then Inr (sid, sofar)
               else Inl (ApiError ''lookup_failed'' ''incorrect_offset'')))"

definition files_upload_session_append_v2 ::
  "bytes \<Rightarrow> upload_session_cursor option \<Rightarrow> bool \<Rightarrow> world \<Rightarrow> unit result \<times> world" where
  "files_upload_session_append_v2 f c close w =
     (let w1 = emit (Dbx (Files_upload_session_append_v2 f c close)) w in
      if \<not> online w1 then (Inl ConnectionError, w1)
      else (case session_at c w1 of
              Inl e \<Rightarrow> (Inl e, w1)
            | Inr (sid, sofar) \<Rightarrow>
                (Inr (), w1\<lparr>sessions := AList.update sid (sofar @ f) (sessions w1)\<rparr>)))"

definition files_upload_session_finish ::
  "bytes \<Rightarrow> upload_session_cursor option \<Rightarrow> commit_info \<Rightarrow> world \<Rightarrow> string result \<times> world" where
  "files_upload_session_finish f c info w =
     (let w1 = emit (Dbx (Files_upload_session_finish f c info)) w in
      if \<not> online w1 then (Inl ConnectionError, w1)
      else (case session_at c w1 of
              Inl e \<Rightarrow> (Inl e, w1)
            | Inr (sid, sofar) \<Rightarrow>
                (case info of CommitInfo p mode mute \<Rightarrow>
                   commit (sofar @ f) p mode (w1\<lparr>sessions := AList.delete sid (sessions w1)\<rparr>))))"

text \<open>Deleting a path removes its entry and, for a folder, the entries below it.\<close>

definition files_delete :: "string \<Rightarrow> world \<Rightarrow> unit result \<times> world" where
  "files_delete p w =
     (let w1 = emit (Dbx (Files_delete p)) w in
      if \<not> online w1 then (Inl ConnectionError, w1)
      else if map_of (store w1) p = None then (Inl (ApiError ''path_lookup'' ''not_found''), w1)
      else (Inr (), w1\<lparr>store := filter (\<lambda>(k, n). k \<noteq> p \<and> \<not> below p True k) (store w1)\<rparr>))"

section \<open>The program\<close>

text \<open>
  A method of \<^verbatim>\<open>DropboxState\<close> takes the world and the state and returns its outcome (an
  exception is \<open>Inl\<close>) with the world and the state it leaves: what a method changed before
  it raised stays changed, as in the Python object.
\<close>

definition STATE_FILE :: string where
  "STATE_FILE = ''.dropbox_state''"

subsection \<open>upload\<close>

text \<open>
  The loop of the chunked upload. \<open>data\<close> is the chunk read last, \<open>rest\<close> what the file
  object has not read yet; the other arguments are the loop's variables.
\<close>

function upload_loop ::
  "bytes \<Rightarrow> bytes \<Rightarrow> string option \<Rightarrow> upload_session_cursor option \<Rightarrow> nat \<Rightarrow> world
    \<Rightarrow> (bytes \<times> upload_session_cursor option) result \<times> world" where
  "upload_loop data rest sid session_cursor off w =
     (let close = length data < 10000000 in
      if close then (Inr (data, session_cursor), w)
      else
        (case (case sid of
                 None \<Rightarrow> files_upload_session_start data close w
               | Some i \<Rightarrow>
                   (case files_upload_session_append_v2 data session_cursor close w of
                      (Inl e, w1) \<Rightarrow> (Inl e, w1)
                    | (Inr u, w1) \<Rightarrow> (Inr i, w1))) of
           (Inl e, w1) \<Rightarrow> (Inl e, w1)
         | (Inr i, w1) \<Rightarrow>
             upload_loop (take 10000000 rest) (drop 10000000 rest) (Some i)
               (Some (UploadSessionCursor i (off + length data))) (off + length data)
               (if session_cursor = None then py_print [Str (CHR 0x09 # ''.'')] w1
                else if (off + length data) mod 100000000 = 0
                  then py_print [Str [CHR 0x09]] (py_print [Str ''.: '', Num (off + length data)] w1)
                else py_print [Str ''.''] w1)))"
  by pat_completeness auto
termination
  by (relation "measure (\<lambda>(data, rest, sid, session_cursor, off, w). length data + length rest)") auto

declare upload_loop.simps [simp del]

definition upload_session :: "path \<Rightarrow> world \<Rightarrow> string result \<times> world" where
  "upload_session path w =
     (case read_file path w of
        Inl e \<Rightarrow> (Inl e, w)
      | Inr c \<Rightarrow>
          (case upload_loop (take 10000000 c) (drop 10000000 c) None None 0 w of
             (Inl e, w1) \<Rightarrow> (Inl e, w1)
           | (Inr (data, session_cursor), w1) \<Rightarrow>
               (case files_upload_session_finish data session_cursor
                       (CommitInfo (os_path_join ''/'' path) WriteMode_overwrite True) w1 of
                  (Inl e, w2) \<Rightarrow> (Inl e, w2)
                | (Inr r, w2) \<Rightarrow> (Inr r, py_print [Str ''.''] w2))))"

definition upload_whole :: "path \<Rightarrow> world \<Rightarrow> string result \<times> world" where
  "upload_whole path w =
     (case read_file path w of
        Inl e \<Rightarrow> (Inl e, w)
      | Inr data \<Rightarrow> files_upload data (os_path_join ''/'' path) WriteMode_overwrite True w)"

definition upload ::
  "path \<Rightarrow> string option \<Rightarrow> world \<Rightarrow> DropboxState \<Rightarrow> unit result \<times> world \<times> DropboxState" where
  "upload path because w s =
     (let w0 = (case because of
                  None \<Rightarrow> py_print [Str (CHR 0x09 # ''Uploading: ''), Str path] w
                | Some b \<Rightarrow> py_print [Str (CHR 0x09 # ''Uploading: ''), Str path, Str b] w) in
      case os_path_getsize path w0 of
        Inl e \<Rightarrow> (Inl e, w0, s)
      | Inr sz \<Rightarrow>
          (case (if sz > 140000000 then upload_session path w0 else upload_whole path w0) of
             (Inl e, w1) \<Rightarrow> (Inl e, w1, s)
           | (Inr r, w1) \<Rightarrow>
               (case os_path_getmtime path w1 of
                  Inl e \<Rightarrow> (Inl e, w1, s)
                | Inr t \<Rightarrow>
                    (Inr (), w1,
                     s\<lparr>local_files := dict_set path \<lparr>revision = r, modified = t\<rparr> (local_files s),
                       remote_files := dict_set path \<lparr>revision = r, modified = t\<rparr> (remote_files s)\<rparr>))))"

subsection \<open>check_state\<close>

definition check_state :: "path \<Rightarrow> world \<Rightarrow> DropboxState \<Rightarrow> unit result \<times> world \<times> DropboxState" where
  "check_state path w s =
     (if \<not> has_key (remote_files s) path then upload path (Some ''-- Not Found Remotely'') w s
      else
        (case os_path_getmtime path w of
           Inl e \<Rightarrow> (Inl e, w, s)
         | Inr t \<Rightarrow>
             (case map_of (local_files s) path of
                None \<Rightarrow> (Inl (KeyError path), w, s)
              | Some m \<Rightarrow>
                  if t > modified m then upload path (Some ''-- Local File Changed'') w s
                  else (Inr (), w, s))))"

subsection \<open>delete_local and delete_remote\<close>

text \<open>
  \<^verbatim>\<open>try: os.remove(path) except: pass\<close> keeps the world the call left and drops its
  outcome; the two \<^verbatim>\<open>del\<close> statements follow, each raising KeyError on a missing key.
\<close>

definition delete_maps :: "path \<Rightarrow> world \<Rightarrow> DropboxState \<Rightarrow> unit result \<times> world \<times> DropboxState" where
  "delete_maps path w s =
     (case dict_del path (local_files s) of
        Inl e \<Rightarrow> (Inl e, w, s)
      | Inr lf \<Rightarrow>
          (case dict_del path (remote_files s) of
             Inl e \<Rightarrow> (Inl e, w, s\<lparr>local_files := lf\<rparr>)
           | Inr rf \<Rightarrow> (Inr (), w, s\<lparr>local_files := lf, remote_files := rf\<rparr>)))"

definition delete_local :: "path \<Rightarrow> world \<Rightarrow> DropboxState \<Rightarrow> unit result \<times> world \<times> DropboxState" where
  "delete_local path w s =
     delete_maps path
       (snd (os_remove path
          (py_print [Str (CHR 0x09 # ''Deleting Locally: ''), Str path,
                     Str '' -- File No Longer On Dropbox''] w))) s"

definition delete_remote :: "path \<Rightarrow> world \<Rightarrow> DropboxState \<Rightarrow> unit result \<times> world \<times> DropboxState" where
  "delete_remote path w s =
     delete_maps path
       (snd (files_delete path
          (py_print [Str (CHR 0x09 # ''Deleting On Dropbox: ''), Str path,
                     Str '' -- File Deleted Locally''] w))) s"

subsection \<open>download_remote\<close>

definition download_remote ::
  "path \<Rightarrow> string option \<Rightarrow> world \<Rightarrow> DropboxState \<Rightarrow> unit result \<times> world \<times> DropboxState" where
  "download_remote path because w s =
     (let w0 = (case because of
                  None \<Rightarrow> py_print [Str (CHR 0x09 # ''Downloading: ''), Str path] w
                | Some b \<Rightarrow> py_print [Str (CHR 0x09 # ''Downloading: ''), Str path, Str b] w);
          head = fst (os_path_split path)
      in case (if \<not> os_path_exists head w0 \<and> head \<noteq> [] then os_makedirs head w0 else (Inr (), w0)) of
           (Inl e, w1) \<Rightarrow> (Inl e, w1, s)
         | (Inr u, w1) \<Rightarrow>
             (case files_download_to_file path (os_path_join ''/'' path) w1 of
                (Inl e, w2) \<Rightarrow> (Inl e, w2, s)
              | (Inr r, w2) \<Rightarrow>
                  (case os_path_getmtime path w2 of
                     Inl e \<Rightarrow> (Inl e, w2, s)
                   | Inr t \<Rightarrow>
                       (Inr (), w2,
                        s\<lparr>local_files := dict_set path \<lparr>revision = r, modified = t\<rparr> (local_files s),
                          remote_files := dict_set path \<lparr>revision = r, modified = t\<rparr> (remote_files s)\<rparr>))))"

subsection \<open>make_local_dir\<close>

text \<open>
  The module \<^verbatim>\<open>os\<close> has no function \<^verbatim>\<open>makedir\<close>: the last statement of the second branch
  raises AttributeError when it looks the name up.
\<close>

definition make_local_dir :: "path \<Rightarrow> world \<Rightarrow> DropboxState \<Rightarrow> unit result \<times> world \<times> DropboxState" where
  "make_local_dir path w s =
     (if \<not> os_path_exists path w then
        (case os_makedirs path w of
           (Inl e, w1) \<Rightarrow> (Inl e, w1, s)
         | (Inr u, w1) \<Rightarrow> (Inr (), w1, s))
      else if os_path_isfile path w then
        (case os_remove path w of
           (Inl e, w1) \<Rightarrow> (Inl e, w1, s)
         | (Inr u, w1) \<Rightarrow>
             (case dict_del path (local_files s) of
                Inl e \<Rightarrow> (Inl e, w1, s)
              | Inr lf \<Rightarrow> (Inl (AttributeError ''makedir''), w1, s\<lparr>local_files := lf\<rparr>)))
      else (Inr (), w, s))"

subsection \<open>__process_remote_entries and execute_delta\<close>

text \<open>
  One turn of the loop over the entries of a page. \<open>seen\<close> is the set
  \<^verbatim>\<open>remote_file_paths\<close>. The attributes of an entry that the loop reads and never uses
  (name, id, the two dates, the content hash) are left out.
\<close>

fun process_remote_entry ::
  "metadata \<Rightarrow> string set \<Rightarrow> world \<Rightarrow> DropboxState \<Rightarrow> string set result \<times> world \<times> DropboxState" where
  "process_remote_entry (FileMetadata pd r) seen w s =
     (case (case map_of (local_files s) (drop 1 pd) of
              None \<Rightarrow> download_remote (drop 1 pd) (Some ''-- Not Found Locally'') w s
            | Some m \<Rightarrow>
                if r \<noteq> revision m
                then download_remote (drop 1 pd) (Some ''-- Remote File Changed'') w s
                else (Inr (), w, s)) of
        (Inl e, w1, s1) \<Rightarrow> (Inl e, w1, s1)
      | (Inr u, w1, s1) \<Rightarrow> (Inr (insert (drop 1 pd) seen), w1, s1))"
| "process_remote_entry (FolderMetadata pd) seen w s =
     (if \<not> os_path_exists (drop 1 pd) w then
        (case make_local_dir (drop 1 pd)
                (py_print [Str (CHR 0x0A # CHR 0x09 # ''Making Directory: ''), Str (drop 1 pd)] w) s of
           (Inl e, w1, s1) \<Rightarrow> (Inl e, w1, s1)
         | (Inr u, w1, s1) \<Rightarrow> (Inr seen, w1, s1))
      else (Inr seen, w, s))"

fun process_remote_entries ::
  "metadata list \<Rightarrow> string set \<Rightarrow> world \<Rightarrow> DropboxState \<Rightarrow> string set result \<times> world \<times> DropboxState" where
  "process_remote_entries [] seen w s = (Inr seen, w, s)"
| "process_remote_entries (entry # rest) seen w s =
     (case process_remote_entry entry seen w s of
        (Inl e, w1, s1) \<Rightarrow> (Inl e, w1, s1)
      | (Inr seen1, w1, s1) \<Rightarrow> process_remote_entries rest seen1 w1 s1)"

text \<open>The \<^verbatim>\<open>while True\<close> loop of execute_delta over the pages of the listing.\<close>

function list_loop ::
  "list_folder_result \<Rightarrow> string set \<Rightarrow> world \<Rightarrow> DropboxState
    \<Rightarrow> string set result \<times> world \<times> DropboxState" where
  "list_loop results seen w s =
     (case process_remote_entries (entries results) seen w s of
        (Inl e, w1, s1) \<Rightarrow> (Inl e, w1, s1)
      | (Inr seen1, w1, s1) \<Rightarrow>
          if \<not> has_more results then (Inr seen1, w1, s1)
          else
            (case files_list_folder_continue (cursor results) w1 of
               (Inl e, w2) \<Rightarrow> (Inl e, w2, s1)
             | (Inr results2, w2) \<Rightarrow> list_loop results2 seen1 w2 s1))"
  by pat_completeness auto
termination
  by (relation "measure (\<lambda>(results, seen, w, s).
         length (cursor results) + (if has_more results then 1 else 0))")
     (auto simp: files_list_folder_continue_def first_page_def Let_def
           split: if_splits list.splits)

declare list_loop.simps [simp del]

text \<open>The loop over \<^verbatim>\<open>remote_files_keys\<close> that ends execute_delta.\<close>

fun delete_unlisted ::
  "path list \<Rightarrow> string set \<Rightarrow> world \<Rightarrow> DropboxState \<Rightarrow> unit result \<times> world \<times> DropboxState" where
  "delete_unlisted [] seen w s = (Inr (), w, s)"
| "delete_unlisted (path # rest) seen w s =
     (if path \<notin> seen then
        (if has_key (local_files s) path then
           (case delete_local path w s of
              (Inl e, w1, s1) \<Rightarrow> (Inl e, w1, s1)
            | (Inr u, w1, s1) \<Rightarrow> delete_unlisted rest seen w1 s1)
         else delete_unlisted rest seen w s)
      else delete_unlisted rest seen w s)"

text \<open>The first part of execute_delta: the listing, read to its end.\<close>

definition list_all_pages ::
  "world \<Rightarrow> DropboxState \<Rightarrow> string set result \<times> world \<times> DropboxState" where
  "list_all_pages w s =
     (case files_list_folder [] True w of
        (Inl e, w1) \<Rightarrow> (Inl e, w1, s)
      | (Inr results, w1) \<Rightarrow> list_loop results {} w1 s)"

definition execute_delta :: "world \<Rightarrow> DropboxState \<Rightarrow> unit result \<times> world \<times> DropboxState" where
  "execute_delta w s =
     (case list_all_pages w s of
        (Inl e, w1, s1) \<Rightarrow> (Inl e, w1, s1)
      | (Inr seen, w1, s1) \<Rightarrow> delete_unlisted (dict_keys (remote_files s1)) seen w1 s1)"

definition check_remote :: "world \<Rightarrow> DropboxState \<Rightarrow> unit result \<times> world \<times> DropboxState" where
  "check_remote w s = execute_delta (py_print [Str (CHR 0x0A # ''Updating From Dropbox'')] w) s"

subsection \<open>The filters and check_local\<close>

fun valid_parts :: "nat \<Rightarrow> string list \<Rightarrow> bool" where
  "valid_parts i [] = True"
| "valid_parts i (part # parts) =
     (if part \<noteq> ''.'' \<and> startswith part ''.'' then False
      else if part \<noteq> ''.'' \<and> i = 1 \<and> startswith part ''site'' then False
      else if part \<noteq> ''.'' \<and> i = 1 \<and> part = ''temp'' then False
      else valid_parts (Suc i) parts)"

definition valid_dir_for_upload :: "string \<Rightarrow> bool" where
  "valid_dir_for_upload dir = valid_parts 0 (split_on CHR ''/'' dir)"

definition valid_filename_for_upload :: "string \<Rightarrow> bool" where
  "valid_filename_for_upload filename =
     (\<not> (filename = STATE_FILE \<or> startswith filename ''.'' \<or> startswith filename ''@'' \<or>
         endswith filename ''~'' \<or> endswith filename ''.pyc'' \<or> endswith filename ''.pyo''))"

definition filelist_of :: "world \<Rightarrow> path list" where
  "filelist_of w =
     concat (map (\<lambda>(root, dirnames, filenames).
                    if valid_dir_for_upload root
                    then map (\<lambda>filename. drop 2 (os_path_join root filename))
                           (filter valid_filename_for_upload filenames)
                    else [])
                 (os_walk w))"

fun check_states ::
  "path list \<Rightarrow> world \<Rightarrow> DropboxState \<Rightarrow> unit result \<times> world \<times> DropboxState" where
  "check_states [] w s = (Inr (), w, s)"
| "check_states (path # rest) w s =
     (case check_state path w s of
        (Inl e, w1, s1) \<Rightarrow> (Inl e, w1, s1)
      | (Inr u, w1, s1) \<Rightarrow> check_states rest w1 s1)"

fun delete_remotes ::
  "path list \<Rightarrow> path list \<Rightarrow> world \<Rightarrow> DropboxState \<Rightarrow> unit result \<times> world \<times> DropboxState" where
  "delete_remotes [] filelist w s = (Inr (), w, s)"
| "delete_remotes (file # rest) filelist w s =
     (if file \<notin> set filelist then
        (case delete_remote file w s of
           (Inl e, w1, s1) \<Rightarrow> (Inl e, w1, s1)
         | (Inr u, w1, s1) \<Rightarrow> delete_remotes rest filelist w1 s1)
      else delete_remotes rest filelist w s)"

definition check_local :: "world \<Rightarrow> DropboxState \<Rightarrow> unit result \<times> world \<times> DropboxState" where
  "check_local w s =
     (case check_states
             (filelist_of (py_print [Str (CHR 0x0A # ''Checking For New Or Updated Local Files'')] w))
             (py_print [Str (CHR 0x0A # ''Checking For New Or Updated Local Files'')] w) s of
        (Inl e, w1, s1) \<Rightarrow> (Inl e, w1, s1)
      | (Inr u, w1, s1) \<Rightarrow>
          delete_remotes (dict_keys (local_files s1))
            (filelist_of (py_print [Str (CHR 0x0A # ''Checking For New Or Updated Local Files'')] w))
            (py_print [Str (CHR 0x0A # ''Checking For Deleted Local Files'')] w1) s1)"

subsection \<open>save_state and the main program\<close>

text \<open>
  The pickle format is not the program's: \<open>pickle_dump state\<close> stands for the strings
  that \<^verbatim>\<open>pickle.dump(state, state_fr)\<close> writes to the file, in order. Opening the file in
  mode \<^verbatim>\<open>'w'\<close> creates it or cuts it to length zero; every write then adds to it.
  \<open>save_state_disk\<close> lists the worlds the disk goes through: after the \<^verbatim>\<open>open\<close> and after
  each write. \<open>save_state\<close> is the call as a whole.
\<close>

definition save_state_disk ::
  "(DropboxState \<Rightarrow> bytes list) \<Rightarrow> DropboxState \<Rightarrow> world \<Rightarrow> world list" where
  "save_state_disk pickle_dump state w =
     map (\<lambda>n. snd (write_file STATE_FILE (concat (take n (pickle_dump state)))
                    (py_print [Str (CHR 0x0A # ''Saving Local State'')] w)))
         [0..<Suc (length (pickle_dump state))]"

definition save_state ::
  "(DropboxState \<Rightarrow> bytes list) \<Rightarrow> DropboxState \<Rightarrow> world \<Rightarrow> unit result \<times> world" where
  "save_state pickle_dump state w =
     write_file STATE_FILE (concat (pickle_dump state))
       (py_print [Str (CHR 0x0A # ''Saving Local State'')] w)"

text \<open>
  The main program once the Dropbox session is there, from the state that load_state
  returned: check_remote, save_state, check_local, save_state.
\<close>

definition main ::
  "(DropboxState \<Rightarrow> bytes list) \<Rightarrow> world \<Rightarrow> DropboxState \<Rightarrow> unit result \<times> world \<times> DropboxState" where
  "main pickle_dump w s =
     (case check_remote w s of
        (Inl e, w1, s1) \<Rightarrow> (Inl e, w1, s1)
      | (Inr u, w1, s1) \<Rightarrow>
          (case save_state pickle_dump s1 w1 of
             (Inl e, w2) \<Rightarrow> (Inl e, w2, s1)
           | (Inr u, w2) \<Rightarrow>
               (case check_local w2 s1 of
                  (Inl e, w3, s3) \<Rightarrow> (Inl e, w3, s3)
                | (Inr u, w3, s3) \<Rightarrow>
                    (case save_state pickle_dump s3 w3 of
                       (Inl e, w4) \<Rightarrow> (Inl e, w4, s3)
                     | (Inr u, w4) \<Rightarrow>
                         (Inr (), py_print [Str (CHR 0x0A # ''Sync Complete'')] w4, s3)))))"

section \<open>Observations and examples\<close>

abbreviation outcome :: "'a \<times> 'b \<times> 'c \<Rightarrow> 'a" where
  "outcome x \<equiv> fst x"

abbreviation world_after :: "'a \<times> 'b \<times> 'c \<Rightarrow> 'b" where
  "world_after x \<equiv> fst (snd x)"

abbreviation state_after :: "'a \<times> 'b \<times> 'c \<Rightarrow> 'c" where
  "state_after x \<equiv> snd (snd x)"

text \<open>The calls to the Dropbox client and to \<^verbatim>\<open>os.remove\<close> that a trace holds, in order.\<close>

definition dbx_calls :: "event list \<Rightarrow> dbx_call list" where
  "dbx_calls evs = concat (map (\<lambda>e. case e of Dbx c \<Rightarrow> [c] | _ \<Rightarrow> []) evs)"

definition removals :: "event list \<Rightarrow> string list" where
  "removals evs = concat (map (\<lambda>e. case e of Os_remove p \<Rightarrow> [p] | _ \<Rightarrow> []) evs)"

text \<open>
  The states a \<^verbatim>\<open>DropboxState\<close> object can be in: the new object, and the object after
  a call of one of its five operations, in any world, whether the call returned or raised.
\<close>

inductive reachable :: "DropboxState \<Rightarrow> bool" where
  reach_init: "reachable init_state"
| reach_upload: "reachable s \<Longrightarrow> reachable (state_after (upload path because w s))"
| reach_download_remote:
    "reachable s \<Longrightarrow> reachable (state_after (download_remote path because w s))"
| reach_delete_local: "reachable s \<Longrightarrow> reachable (state_after (delete_local path w s))"
| reach_delete_remote: "reachable s \<Longrightarrow> reachable (state_after (delete_remote path w s))"
| reach_make_local_dir: "reachable s \<Longrightarrow> reachable (state_after (make_local_dir path w s))"

text \<open>
  A small world: a local file \<^verbatim>\<open>a\<close> and a local directory \<^verbatim>\<open>d\<close>; the app folder
  holds \<^verbatim>\<open>/a\<close>.
\<close>

definition ex_world :: world where
  "ex_world =
     \<lparr>fs = [([''a''], File 1 ''abc''), ([''d''], Dir 1)], clock = 5,
      store = [(''/a'', RFile ''r0'' ''abc'')], rev_count = 1, sessions = [],
      online = True, page_size = 9, trace = []\<rparr>"

definition ex_offline :: world where
  "ex_offline = ex_world\<lparr>online := False\<rparr>"

definition ex_meta :: meta where
  "ex_meta = \<lparr>revision = ''r1'', modified = 1\<rparr>"

definition ex_synced :: DropboxState where
  "ex_synced = \<lparr>local_files = [(''a'', ex_meta)], remote_files = [(''a'', ex_meta)]\<rparr>"

definition ex_remote_only :: DropboxState where
  "ex_remote_only = \<lparr>local_files = [], remote_files = [(''a'', ex_meta)]\<rparr>"

definition ex_synced_d :: DropboxState where
  "ex_synced_d = \<lparr>local_files = [(''d'', ex_meta)], remote_files = [(''d'', ex_meta)]\<rparr>"

text \<open>Going on after an operation that returned; an exception ends the run.\<close>

definition and_then ::
  "'a result \<times> world \<times> DropboxState
    \<Rightarrow> ('a \<Rightarrow> world \<Rightarrow> DropboxState \<Rightarrow> 'b result \<times> world \<times> DropboxState)
    \<Rightarrow> 'b result \<times> world \<times> DropboxState" where
  "and_then x f = (case x of (Inl e, w, s) \<Rightarrow> (Inl e, w, s) | (Inr a, w, s) \<Rightarrow> f a w s)"

text \<open>A world with two local files, \<^verbatim>\<open>a\<close> and \<^verbatim>\<open>b\<close>, and the state file.\<close>

definition ex_local :: world where
  "ex_local =
     \<lparr>fs = [([''a''], File 1 ''abc''), ([''b''], File 7 ''xyz''),
            ([''.dropbox_state''], File 2 ''S'')],
      clock = 9, store = [], rev_count = 0, sessions = [], online = True, page_size = 9,
      trace = []\<rparr>"

definition ex_b_older :: DropboxState where
  "ex_b_older =
     \<lparr>local_files = [(''a'', ex_meta), (''b'', \<lparr>revision = ''r2'', modified = 3\<rparr>)],
      remote_files = [(''a'', ex_meta), (''b'', \<lparr>revision = ''r2'', modified = 3\<rparr>)]\<rparr>"

text \<open>What the state file holds on disk, if it is there.\<close>

definition disk_content :: "world \<Rightarrow> bytes option" where
  "disk_content w = (case node_at w STATE_FILE of Some (File t c) \<Rightarrow> Some c | _ \<Rightarrow> None)"

text \<open>
  A file \<^verbatim>\<open>x\<close> that an earlier run synchronised and that has since been deleted on the
  local side: the app folder still holds \<^verbatim>\<open>/x\<close>, both maps still record it. Two runs of
  the main program follow each other; the second starts from the world the first left and
  from the state the first saved.
\<close>

definition ex_deleted :: world where
  "ex_deleted =
     \<lparr>fs = [], clock = 5, store = [(''/x'', RFile ''r0'' ''abc'')], rev_count = 1, sessions = [],
      online = True, page_size = 9, trace = []\<rparr>"

definition ex_x :: DropboxState where
  "ex_x =
     \<lparr>local_files = [(''x'', \<lparr>revision = ''r0'', modified = 1\<rparr>)],
      remote_files = [(''x'', \<lparr>revision = ''r0'', modified = 1\<rparr>)]\<rparr>"

definition ex_first_run ::
  "(DropboxState \<Rightarrow> bytes list) \<Rightarrow> unit result \<times> world \<times> DropboxState" where
  "ex_first_run d = main d ex_deleted ex_x"

definition ex_second_run ::
  "(DropboxState \<Rightarrow> bytes list) \<Rightarrow> unit result \<times> world \<times> DropboxState" where
  "ex_second_run d = main d (world_after (ex_first_run d)) (state_after (ex_first_run d))"

text \<open>
  C4 in the claim's words: the calls of a chunked upload of the content \<open>c\<close> to the
  destination \<open>dest\<close> in the session \<open>sid\<close>. The session starts with the first
  10 MB; chunk \<open>j\<close> is appended with a cursor whose offset is \<open>j\<close> times 10 MB; the
  session is finished with what is left after the last full chunk, the cursor at that
  offset, and a commit descriptor with the destination and the mode overwrite.
\<close>

definition session_calls :: "string \<Rightarrow> bytes \<Rightarrow> string \<Rightarrow> dbx_call list" where
  "session_calls sid c dest =
     Files_upload_session_start (take 10000000 c) False #
     map (\<lambda>j. Files_upload_session_append_v2 (take 10000000 (drop (j * 10000000) c))
                 (Some (UploadSessionCursor sid (j * 10000000))) False)
         [1..<length c div 10000000] @
     [Files_upload_session_finish (drop (length c div 10000000 * 10000000) c)
        (Some (UploadSessionCursor sid (length c div 10000000 * 10000000)))
        (CommitInfo dest WriteMode_overwrite True)]"

text \<open>The bytes a call carries, and the offset of its cursor.\<close>

fun sent_bytes :: "dbx_call \<Rightarrow> bytes" where
  "sent_bytes (Files_upload_session_start f close) = f"
| "sent_bytes (Files_upload_session_append_v2 f c close) = f"
| "sent_bytes (Files_upload_session_finish f c info) = f"
| "sent_bytes (Files_upload f p mode mute) = f"
| "sent_bytes other = []"

fun cursor_offset :: "dbx_call \<Rightarrow> nat option" where
  "cursor_offset (Files_upload_session_append_v2 f (Some c) close) = Some (offset c)"
| "cursor_offset (Files_upload_session_finish f (Some c) info) = Some (offset c)"
| "cursor_offset other = None"

text \<open>A world with a local file of 140000001 bytes and a small one.\<close>

definition ex_big :: world where
  "ex_big =
     \<lparr>fs = [([''big''], File 3 (replicate 140000001 (CHR ''x''))), ([''small''], File 4 ''abc'')],
      clock = 5, store = [], rev_count = 0, sessions = [], online = True, page_size = 9,
      trace = []\<rparr>"

text \<open>
  The paths of the file entries of a listing (without their first character, as the
  program cuts them), and the listing of the whole app folder.
\<close>

definition file_paths :: "metadata list \<Rightarrow> string set" where
  "file_paths es = set (concat (map (\<lambda>e. case e of FileMetadata pd r \<Rightarrow> [drop 1 pd] | _ \<Rightarrow> []) es))"

definition listing :: "world \<Rightarrow> metadata list" where
  "listing w = map to_entry (filter (\<lambda>(k, n). below [] True k) (AList.clearjunk (store w)))"

text \<open>
  The paths the last loop of execute_delta deletes locally: the keys of \<^verbatim>\<open>remote_files\<close>
  that were not seen as files and are keys of \<^verbatim>\<open>local_files\<close>, in the order of the keys.
\<close>

definition deleted_paths :: "string set \<Rightarrow> DropboxState \<Rightarrow> path list" where
  "deleted_paths seen s =
     filter (\<lambda>p. p \<notin> seen \<and> has_key (local_files s) p) (dict_keys (remote_files s))"

text \<open>
  A world where \<^verbatim>\<open>/a\<close> is still on Dropbox, \<^verbatim>\<open>g\<close> was synchronised before and is gone
  from Dropbox, and \<^verbatim>\<open>n\<close> is a local file that was never synchronised.
\<close>

definition ex_gone :: world where
  "ex_gone =
     \<lparr>fs = [([''a''], File 1 ''abc''), ([''g''], File 2 ''old''), ([''n''], File 3 ''new'')],
      clock = 5, store = [(''/a'', RFile ''r0'' ''abc'')], rev_count = 1, sessions = [],
      online = True, page_size = 9, trace = []\<rparr>"

definition ex_ag :: DropboxState where
  "ex_ag =
     \<lparr>local_files = [(''a'', \<lparr>revision = ''r0'', modified = 1\<rparr>),
                     (''g'', \<lparr>revision = ''r5'', modified = 2\<rparr>)],
      remote_files = [(''a'', \<lparr>revision = ''r0'', modified = 1\<rparr>),
                      (''g'', \<lparr>revision = ''r5'', modified = 2\<rparr>)]\<rparr>"

text \<open>
  A world where the listing cannot be read to its end: the app folder holds \<^verbatim>\<open>/a\<close> and
  \<^verbatim>\<open>/c\<close>, listed one entry to a page, and a local directory is in the place of \<^verbatim>\<open>c\<close>, so
  the download of \<^verbatim>\<open>/c\<close> fails. The file \<^verbatim>\<open>g\<close> was synchronised before and is gone from
  Dropbox.
\<close>

definition ex_blocked :: world where
  "ex_blocked =
     \<lparr>fs = [([''g''], File 2 ''old''), ([''c''], Dir 1)],
      clock = 5, store = [(''/a'', RFile ''r0'' ''abc''), (''/c'', RFile ''r1'' ''xyz'')],
      rev_count = 2, sessions = [], online = True, page_size = 0, trace = []\<rparr>"

definition ex_g :: DropboxState where
  "ex_g =
     \<lparr>local_files = [(''g'', \<lparr>revision = ''r5'', modified = 2\<rparr>)],
      remote_files = [(''g'', \<lparr>revision = ''r5'', modified = 2\<rparr>)]\<rparr>"

subsection \<open>The decisions of a whole pass\<close>

text \<open>
  What a run shows of its decisions: download_remote prints
  \<^verbatim>\<open>'\tDownloading: ', path, because\<close> and upload prints
  \<^verbatim>\<open>'\tUploading: ', path, because\<close> before anything else. The lines of each kind, in
  the order of the trace:
\<close>

fun download_line :: "event \<Rightarrow> (string \<times> string) list" where
  "download_line (Print [Str h, Str p, Str b]) =
     (if h = CHR 0x09 # ''Downloading: '' then [(p, b)] else [])"
| "download_line e = []"

definition downloading :: "event list \<Rightarrow> (string \<times> string) list" where
  "downloading evs = concat (map download_line evs)"

fun upload_line :: "event \<Rightarrow> (string \<times> string) list" where
  "upload_line (Print [Str h, Str p, Str b]) =
     (if h = CHR 0x09 # ''Uploading: '' then [(p, b)] else [])"
| "upload_line e = []"

definition uploading :: "event list \<Rightarrow> (string \<times> string) list" where
  "uploading evs = concat (map upload_line evs)"

text \<open>
  The calls to the client that move or delete a file: every call but the two that read the
  listing. And the Dropbox paths to which a trace committed a file, in one call or by a
  session.
\<close>

fun transfer :: "event \<Rightarrow> dbx_call list" where
  "transfer (Dbx (Files_list_folder p recursive)) = []"
| "transfer (Dbx (Files_list_folder_continue c)) = []"
| "transfer (Dbx c) = [c]"
| "transfer e = []"

definition transfers :: "event list \<Rightarrow> dbx_call list" where
  "transfers evs = concat (map transfer evs)"

fun sent_to :: "event \<Rightarrow> string list" where
  "sent_to (Dbx (Files_upload f p mode mute)) = [p]"
| "sent_to (Dbx (Files_upload_session_finish f c (CommitInfo p mode mute))) = [p]"
| "sent_to e = []"

definition uploaded_to :: "event list \<Rightarrow> string list" where
  "uploaded_to evs = concat (map sent_to evs)"

text \<open>
  C1 in the claim's words, for one entry of the listing and the state the pass starts with,
  as the line that the download prints: a file whose path is not a key of \<^verbatim>\<open>local_files\<close>
  is downloaded as not found locally, one whose revision differs from the recorded one as
  changed, and nothing else is.
\<close>

fun remote_decision :: "DropboxState \<Rightarrow> metadata \<Rightarrow> (string \<times> string) list" where
  "remote_decision s (FileMetadata pd r) =
     (case map_of (local_files s) (drop 1 pd) of
        None \<Rightarrow> [(drop 1 pd, ''-- Not Found Locally'')]
      | Some m \<Rightarrow> if r \<noteq> revision m then [(drop 1 pd, ''-- Remote File Changed'')] else [])"
| "remote_decision s (FolderMetadata pd) = []"

text \<open>The paths of the file entries of a listing, in order (\<^const>\<open>file_paths\<close> is its set).\<close>

definition file_path_list :: "metadata list \<Rightarrow> string list" where
  "file_path_list es = concat (map (\<lambda>e. case e of FileMetadata pd r \<Rightarrow> [drop 1 pd] | _ \<Rightarrow> []) es)"

text \<open>
  What C1 leaves in the two maps for a file entry, from the state \<open>s\<close> before the pass to the
  state \<open>s'\<close> after it: the records as they were where no download was due; where one was,
  the same record in both maps, with the revision under which the app folder holds the file.
\<close>

fun recorded :: "world \<Rightarrow> DropboxState \<Rightarrow> DropboxState \<Rightarrow> metadata \<Rightarrow> bool" where
  "recorded w s s' (FileMetadata pd r) =
     (if remote_decision s (FileMetadata pd r) = []
      then map_of (local_files s') (drop 1 pd) = map_of (local_files s) (drop 1 pd) \<and>
           map_of (remote_files s') (drop 1 pd) = map_of (remote_files s) (drop 1 pd)
      else (case (map_of (store w) (os_path_join ''/'' (drop 1 pd)), map_of (local_files s') (drop 1 pd)) of
              (Some (RFile r' c), Some m) \<Rightarrow>
                 revision m = r' \<and> map_of (remote_files s') (drop 1 pd) = Some m
            | _ \<Rightarrow> False))"
| "recorded w s s' (FolderMetadata pd) = True"

text \<open>
  A world for the remote pass, listed two entries to a page: \<^verbatim>\<open>/a\<close> is recorded with its
  revision and another time than the file has, \<^verbatim>\<open>/b\<close> with an older revision, and \<^verbatim>\<open>/c\<close> is
  not recorded.
\<close>

definition ex_three :: world where
  "ex_three =
     \<lparr>fs = [([''a''], File 1 ''abc''), ([''b''], File 2 ''old'')], clock = 5,
      store = [(''/a'', RFile ''r0'' ''abc''), (''/b'', RFile ''r7'' ''new''),
               (''/c'', RFile ''r3'' ''ccc'')],
      rev_count = 8, sessions = [], online = True, page_size = 1, trace = []\<rparr>"

definition ex_ab :: DropboxState where
  "ex_ab =
     \<lparr>local_files = [(''a'', \<lparr>revision = ''r0'', modified = 0\<rparr>),
                     (''b'', \<lparr>revision = ''r2'', modified = 2\<rparr>)],
      remote_files = [(''a'', \<lparr>revision = ''r0'', modified = 0\<rparr>),
                      (''b'', \<lparr>revision = ''r2'', modified = 2\<rparr>)]\<rparr>"

text \<open>
  C2 in the claim's words, for one path of the local scan, the disk and the state the pass
  starts with, as the line that the upload prints: a path that is not a key of
  \<^verbatim>\<open>remote_files\<close> is uploaded as not found remotely, one whose file is newer than the
  recorded time as changed, and nothing else is.
\<close>

definition local_decision :: "world \<Rightarrow> DropboxState \<Rightarrow> path \<Rightarrow> (string \<times> string) list" where
  "local_decision w s path =
     (if \<not> has_key (remote_files s) path then [(path, ''-- Not Found Remotely'')]
      else (case (os_path_getmtime path w, map_of (local_files s) path) of
              (Inr t, Some m) \<Rightarrow> if t > modified m then [(path, ''-- Local File Changed'')] else []
            | _ \<Rightarrow> []))"

text \<open>
  What C2 leaves in the two maps for a path: the records as they were where no upload was
  due; where one was, the same record in both maps, with the modification time of the file.
\<close>

fun recorded_local :: "world \<Rightarrow> DropboxState \<Rightarrow> DropboxState \<Rightarrow> path \<Rightarrow> bool" where
  "recorded_local w s s' p =
     (if local_decision w s p = []
      then map_of (local_files s') p = map_of (local_files s) p \<and>
           map_of (remote_files s') p = map_of (remote_files s) p
      else (case (os_path_getmtime p w, map_of (local_files s') p) of
              (Inr t, Some m) \<Rightarrow> modified m = t \<and> map_of (remote_files s') p = Some m
            | _ \<Rightarrow> False))"

text \<open>
  A world for the local pass: \<^verbatim>\<open>a\<close> has the recorded time, \<^verbatim>\<open>b\<close> is newer than its record
  and \<^verbatim>\<open>n\<close> has no record (the state is \<open>ex_b_older\<close>).
\<close>

definition ex_scan :: world where
  "ex_scan =
     \<lparr>fs = [([''a''], File 1 ''abc''), ([''b''], File 7 ''xyz''), ([''n''], File 3 ''new''),
            ([''.dropbox_state''], File 2 ''S'')],
      clock = 9, store = [], rev_count = 0, sessions = [], online = True, page_size = 9,
      trace = []\<rparr>"

section \<open>Properties\<close>

lemmas model_defs =
  has_key_def dict_keys_def dict_set_def dict_del_def init_state_def startswith_def endswith_def
  os_path_join_def rstrip_slash_def os_path_split_def comps_def emit_def py_print_def node_at_def
  os_path_exists_def os_path_isfile_def os_path_getmtime_def os_path_getsize_def os_remove_def
  ancestors_def is_file_node_def is_dir_node_def os_makedirs_def read_file_def write_file_def
  fs_keys_def children_def os_walk_def new_rev_def new_session_def below_def first_page_def
  files_list_folder_def files_list_folder_continue_def files_download_to_file_def commit_def
  files_upload_def files_upload_session_start_def session_at_def files_upload_session_append_v2_def
  files_upload_session_finish_def files_delete_def STATE_FILE_def upload_session_def upload_whole_def
  upload_def check_state_def delete_maps_def delete_local_def delete_remote_def download_remote_def
  make_local_dir_def list_all_pages_def execute_delta_def check_remote_def valid_dir_for_upload_def
  valid_filename_for_upload_def filelist_of_def check_local_def save_state_disk_def save_state_def
  main_def Let_def pages.simps list_loop.simps dbx_calls_def removals_def

lemmas example_defs =
  ex_world_def ex_offline_def ex_meta_def ex_synced_def ex_remote_only_def ex_synced_d_def

subsection \<open>Dictionaries and traces\<close>

lemma has_key_delete: "has_key (AList.delete k d) p = (p \<noteq> k \<and> has_key d p)"
  by (simp add: has_key_def delete_conv')

lemma has_key_set: "has_key (dict_set k v d) p = (p = k \<or> has_key d p)"
  by (simp add: has_key_def dict_set_def update_conv')

lemma has_key_keys: "has_key d p = (p \<in> set (dict_keys d))"
  by (simp add: has_key_def dict_keys_def map_of_eq_None_iff)

lemma dbx_calls_append [simp]: "dbx_calls (xs @ ys) = dbx_calls xs @ dbx_calls ys"
  by (simp add: dbx_calls_def)

lemma removals_append [simp]: "removals (xs @ ys) = removals xs @ removals ys"
  by (simp add: removals_def)

lemma dbx_calls_simps [simp]:
  "dbx_calls [] = []"
  "dbx_calls (Dbx c # evs) = c # dbx_calls evs"
  "dbx_calls (Print a # evs) = dbx_calls evs"
  "dbx_calls (Os_remove p # evs) = dbx_calls evs"
  "dbx_calls (Os_makedirs p # evs) = dbx_calls evs"
  by (simp_all add: dbx_calls_def)

lemma removals_simps [simp]:
  "removals [] = []"
  "removals (Os_remove p # evs) = p # removals evs"
  "removals (Print a # evs) = removals evs"
  "removals (Dbx c # evs) = removals evs"
  "removals (Os_makedirs p # evs) = removals evs"
  by (simp_all add: removals_def)

lemma trace_py_print [simp]: "trace (py_print a w) = trace w @ [Print a]"
  by (simp add: py_print_def emit_def)

lemma trace_os_remove [simp]: "trace (snd (os_remove p w)) = trace w @ [Os_remove p]"
  by (simp add: os_remove_def emit_def Let_def split: option.splits node.splits)

lemma trace_files_delete [simp]: "trace (snd (files_delete p w)) = trace w @ [Dbx (Files_delete p)]"
  by (simp add: files_delete_def emit_def Let_def)

subsection \<open>delete_local and delete_remote\<close>

lemma delete_maps_cases:
  "delete_maps path w s =
     (if has_key (local_files s) path then
        (if has_key (remote_files s) path
         then (Inr (), w, s\<lparr>local_files := AList.delete path (local_files s),
                             remote_files := AList.delete path (remote_files s)\<rparr>)
         else (Inl (KeyError path), w, s\<lparr>local_files := AList.delete path (local_files s)\<rparr>))
      else (Inl (KeyError path), w, s))"
  by (simp add: delete_maps_def dict_del_def)

text \<open>
  C6, as amended. When \<^verbatim>\<open>delete_local(path)\<close> or \<^verbatim>\<open>delete_remote(path)\<close> returns, the
  path is a key of neither map. When the path was a key of \<^verbatim>\<open>local_files\<close> at the call,
  it is a key of neither map afterwards, also when the call raises (KeyError, because
  \<^verbatim>\<open>remote_files\<close> did not hold it). When the path was not a key of \<^verbatim>\<open>local_files\<close>,
  the call raises KeyError at the first \<^verbatim>\<open>del\<close> and leaves both maps as they were.
\<close>

theorem delete_removes_path_from_both_maps:
  "(outcome (delete_local path w s) = Inr () \<longrightarrow>
      \<not> has_key (local_files (state_after (delete_local path w s))) path \<and>
      \<not> has_key (remote_files (state_after (delete_local path w s))) path) \<and>
   (has_key (local_files s) path \<longrightarrow>
      \<not> has_key (local_files (state_after (delete_local path w s))) path \<and>
      \<not> has_key (remote_files (state_after (delete_local path w s))) path) \<and>
   (\<not> has_key (local_files s) path \<longrightarrow>
      outcome (delete_local path w s) = Inl (KeyError path) \<and>
      state_after (delete_local path w s) = s) \<and>
   (outcome (delete_remote path w s) = Inr () \<longrightarrow>
      \<not> has_key (local_files (state_after (delete_remote path w s))) path \<and>
      \<not> has_key (remote_files (state_after (delete_remote path w s))) path) \<and>
   (has_key (local_files s) path \<longrightarrow>
      \<not> has_key (local_files (state_after (delete_remote path w s))) path \<and>
      \<not> has_key (remote_files (state_after (delete_remote path w s))) path) \<and>
   (\<not> has_key (local_files s) path \<longrightarrow>
      outcome (delete_remote path w s) = Inl (KeyError path) \<and>
      state_after (delete_remote path w s) = s)"
  by (simp add: delete_local_def delete_remote_def delete_maps_cases has_key_delete)

theorem delete_removes_path_from_both_maps_witness:
  "has_key (local_files ex_synced) ''a'' \<and>
   outcome (delete_local ''a'' ex_world ex_synced) = Inr () \<and>
   \<not> has_key (local_files (state_after (delete_local ''a'' ex_world ex_synced))) ''a'' \<and>
   \<not> has_key (remote_files (state_after (delete_local ''a'' ex_world ex_synced))) ''a'' \<and>
   outcome (delete_remote ''a'' ex_world ex_synced) = Inr () \<and>
   \<not> has_key (local_files (state_after (delete_remote ''a'' ex_world ex_synced))) ''a'' \<and>
   \<not> has_key (remote_files (state_after (delete_remote ''a'' ex_world ex_synced))) ''a'' \<and>
   \<not> has_key (local_files ex_remote_only) ''a'' \<and>
   outcome (delete_local ''a'' ex_world ex_remote_only) = Inl (KeyError ''a'') \<and>
   state_after (delete_local ''a'' ex_world ex_remote_only) = ex_remote_only"
proof -
  have k: "has_key (local_files ex_synced) ''a''" "has_key (remote_files ex_synced) ''a''"
    "\<not> has_key (local_files ex_remote_only) ''a''"
    by (simp_all add: has_key_def example_defs)
  have r: "outcome (delete_local ''a'' ex_world ex_synced) = Inr ()"
    "outcome (delete_remote ''a'' ex_world ex_synced) = Inr ()"
    using k by (simp_all add: delete_local_def delete_remote_def delete_maps_cases)
  show ?thesis
    using k r delete_removes_path_from_both_maps [of "''a''" ex_world ex_synced]
      delete_removes_path_from_both_maps [of "''a''" ex_world ex_remote_only]
    by simp
qed

text \<open>
  C6 as stated fails: a deletion can leave a path in exactly one of the two maps. With
  \<^verbatim>\<open>a\<close> in \<^verbatim>\<open>remote_files\<close> only, \<^verbatim>\<open>delete_local('a')\<close> raises KeyError at
  \<^verbatim>\<open>del self.local_files[path]\<close> and \<^verbatim>\<open>remote_files\<close> still holds \<^verbatim>\<open>a\<close>.
\<close>

theorem delete_keeps_remote_only_path:
  "outcome (delete_local ''a'' ex_world ex_remote_only) = Inl (KeyError ''a'') \<and>
   \<not> has_key (local_files (state_after (delete_local ''a'' ex_world ex_remote_only))) ''a'' \<and>
   has_key (remote_files (state_after (delete_local ''a'' ex_world ex_remote_only))) ''a'' \<and>
   outcome (delete_remote ''a'' ex_world ex_remote_only) = Inl (KeyError ''a'') \<and>
   \<not> has_key (local_files (state_after (delete_remote ''a'' ex_world ex_remote_only))) ''a'' \<and>
   has_key (remote_files (state_after (delete_remote ''a'' ex_world ex_remote_only))) ''a''"
  by (simp add: delete_local_def delete_remote_def delete_maps_cases has_key_def example_defs)

text \<open>
  C7, as amended. \<^verbatim>\<open>delete_local\<close> calls \<^verbatim>\<open>os.remove(path)\<close> once and
  \<^verbatim>\<open>delete_remote\<close> calls \<^verbatim>\<open>dbx.files_delete(path)\<close> once, and neither lets any failure
  of that call through: whatever the world, and so whatever the call did, the outcome is
  decided by the two maps alone. It is a return when the path is a key of both, and
  KeyError otherwise.
\<close>

theorem delete_suppresses_primitive_failures:
  "outcome (delete_local path w s) =
     (if has_key (local_files s) path \<and> has_key (remote_files s) path
      then Inr () else Inl (KeyError path)) \<and>
   removals (trace (world_after (delete_local path w s))) = removals (trace w) @ [path] \<and>
   outcome (delete_remote path w s) =
     (if has_key (local_files s) path \<and> has_key (remote_files s) path
      then Inr () else Inl (KeyError path)) \<and>
   dbx_calls (trace (world_after (delete_remote path w s))) =
     dbx_calls (trace w) @ [Files_delete path]"
  by (simp add: delete_local_def delete_remote_def delete_maps_cases)

text \<open>
  C7 as stated fails. \<^verbatim>\<open>os.remove('d')\<close> on a directory fails with EISDIR, which is not
  "already absent", and \<^verbatim>\<open>delete_local('d')\<close> returns; offline, \<^verbatim>\<open>files_delete\<close> fails
  with a connection error and \<^verbatim>\<open>delete_remote\<close> returns.
\<close>

theorem delete_returns_after_other_failure:
  "fst (os_remove ''d'' ex_world) = Inl (OSError EISDIR ''d'') \<and>
   outcome (delete_local ''d'' ex_world ex_synced_d) = Inr () \<and>
   fst (files_delete ''a'' ex_offline) = Inl ConnectionError \<and>
   outcome (delete_remote ''a'' ex_offline ex_synced) = Inr ()"
  by (simp add: delete_local_def delete_remote_def delete_maps_cases has_key_def example_defs
        os_remove_def files_delete_def node_at_def comps_def emit_def)

subsection \<open>The keys of the two maps\<close>

lemma upload_state:
  "state_after (upload path b w s) = s \<or>
   (\<exists>m. state_after (upload path b w s) =
      s\<lparr>local_files := dict_set path m (local_files s),
        remote_files := dict_set path m (remote_files s)\<rparr>)"
  unfolding upload_def Let_def
  by (auto split: sum.splits prod.splits)

lemma download_remote_state:
  "state_after (download_remote path b w s) = s \<or>
   (\<exists>m. state_after (download_remote path b w s) =
      s\<lparr>local_files := dict_set path m (local_files s),
        remote_files := dict_set path m (remote_files s)\<rparr>)"
  unfolding download_remote_def Let_def
  by (auto split: sum.splits prod.splits)

lemma make_local_dir_state:
  "state_after (make_local_dir path w s) = s \<or>
   state_after (make_local_dir path w s) = s\<lparr>local_files := AList.delete path (local_files s)\<rparr>"
  unfolding make_local_dir_def dict_del_def
  by (auto split: sum.splits prod.splits)

lemma keys_within_iff:
  "(set (dict_keys (local_files s)) \<subseteq> set (dict_keys (remote_files s))) =
   (\<forall>p. has_key (local_files s) p \<longrightarrow> has_key (remote_files s) p)"
  by (auto simp: has_key_keys)

lemma reachable_keys:
  "reachable s \<Longrightarrow> has_key (local_files s) p \<Longrightarrow> has_key (remote_files s) p"
proof (induction arbitrary: p rule: reachable.induct)
  case reach_init
  then show ?case by (simp add: has_key_def init_state_def)
next
  case (reach_upload s path because w)
  then show ?case
    using upload_state [of path because w s] by (auto simp: has_key_set)
next
  case (reach_download_remote s path because w)
  then show ?case
    using download_remote_state [of path because w s] by (auto simp: has_key_set)
next
  case (reach_delete_local s path w)
  then show ?case
    by (auto simp: delete_local_def delete_maps_cases has_key_delete split: if_splits)
next
  case (reach_delete_remote s path w)
  then show ?case
    by (auto simp: delete_remote_def delete_maps_cases has_key_delete split: if_splits)
next
  case (reach_make_local_dir s path w)
  then show ?case
    using make_local_dir_state [of path w s] by (auto simp: has_key_delete)
qed

lemma upload_example: "state_after (upload ''a'' None ex_world init_state) = ex_synced"
  by (simp add: model_defs example_defs)

lemma make_local_dir_example:
  "make_local_dir ''a'' ex_world ex_synced =
     (Inl (AttributeError ''makedir''),
      ex_world\<lparr>fs := [([''d''], Dir 1)], trace := [Os_remove ''a'']\<rparr>, ex_remote_only)"
  by (simp add: model_defs example_defs)

lemma reachable_ex_synced: "reachable ex_synced"
proof -
  have "reachable (state_after (upload ''a'' None ex_world init_state))"
    by (rule reach_upload) (rule reach_init)
  then show ?thesis by (simp add: upload_example)
qed

lemma reachable_ex_remote_only: "reachable ex_remote_only"
proof -
  have "reachable (state_after (make_local_dir ''a'' ex_world ex_synced))"
    by (rule reach_make_local_dir) (rule reachable_ex_synced)
  then show ?thesis by (simp add: make_local_dir_example)
qed

text \<open>
  C10. In every state that the operations upload, download_remote, delete_local,
  delete_remote and make_local_dir can leave behind, starting from the empty state, every
  key of \<^verbatim>\<open>local_files\<close> is a key of \<^verbatim>\<open>remote_files\<close>. The reverse inclusion fails in a
  state of that kind: the second branch of make_local_dir removes a path from
  \<^verbatim>\<open>local_files\<close> only (and then raises, as \<^verbatim>\<open>os.makedir\<close> does not exist).
\<close>

theorem reachable_local_keys_within_remote:
  "(\<forall>s. reachable s \<longrightarrow>
        set (dict_keys (local_files s)) \<subseteq> set (dict_keys (remote_files s))) \<and>
   (\<exists>s. reachable s \<and>
        \<not> set (dict_keys (remote_files s)) \<subseteq> set (dict_keys (local_files s)))"
proof (intro conjI allI impI)
  fix s
  assume "reachable s"
  then show "set (dict_keys (local_files s)) \<subseteq> set (dict_keys (remote_files s))"
    by (simp add: keys_within_iff reachable_keys)
next
  have "\<not> set (dict_keys (remote_files ex_remote_only)) \<subseteq> set (dict_keys (local_files ex_remote_only))"
    by (simp add: dict_keys_def example_defs)
  then show "\<exists>s. reachable s \<and> \<not> set (dict_keys (remote_files s)) \<subseteq> set (dict_keys (local_files s))"
    using reachable_ex_remote_only by blast
qed

theorem reachable_local_keys_within_remote_witness:
  "reachable ex_synced \<and> reachable ex_remote_only \<and>
   set (dict_keys (local_files ex_synced)) \<subseteq> set (dict_keys (remote_files ex_synced)) \<and>
   set (dict_keys (local_files ex_remote_only)) \<subseteq> set (dict_keys (remote_files ex_remote_only))"
  using reachable_local_keys_within_remote reachable_ex_synced reachable_ex_remote_only
  by blast

lemma py_print_fields [simp]:
  "fs (py_print a w) = fs w"
  "store (py_print a w) = store w"
  "sessions (py_print a w) = sessions w"
  "online (py_print a w) = online w"
  "clock (py_print a w) = clock w"
  "rev_count (py_print a w) = rev_count w"
  "page_size (py_print a w) = page_size w"
  by (simp_all add: py_print_def emit_def)

subsection \<open>Remote folders\<close>

lemma os_makedirs_creates:
  assumes "os_makedirs p w = (Inr (), w1)"
  shows "is_dir_node (node_at w1 p)"
  using assms
  by (auto simp: os_makedirs_def node_at_def emit_def Let_def is_dir_node_def map_of_append
                 map_add_def map_of_map_restrict restrict_map_def
           split: if_splits option.splits)

text \<open>
  What the loop does with a folder entry: where nothing is at the path it calls
  \<^verbatim>\<open>os.makedirs\<close> (through make_local_dir, whose first branch it is); where something
  is at the path, a file or a directory, it does nothing at all.
\<close>

lemma remote_folder_entry:
  "(\<not> os_path_exists (drop 1 pd) w \<longrightarrow>
      process_remote_entry (FolderMetadata pd) seen w s =
        (case os_makedirs (drop 1 pd)
                (py_print [Str (CHR 0x0A # CHR 0x09 # ''Making Directory: ''), Str (drop 1 pd)] w) of
           (Inl e, w1) \<Rightarrow> (Inl e, w1, s)
         | (Inr u, w1) \<Rightarrow> (Inr seen, w1, s))) \<and>
   (os_path_exists (drop 1 pd) w \<longrightarrow>
      process_remote_entry (FolderMetadata pd) seen w s = (Inr seen, w, s))"
  by (auto simp: make_local_dir_def os_path_exists_def node_at_def split: prod.splits sum.splits)

text \<open>
  C8 at the input where the code departs from it. The app folder lists a folder
  \<^verbatim>\<open>/a\<close> and a local file is at \<^verbatim>\<open>a\<close>: the remote pass leaves the world and the state
  as they are, so the file stays and no directory is made. make_local_dir itself, called
  on that path, removes the file and the entry of \<^verbatim>\<open>local_files\<close> and then raises
  AttributeError (\<^verbatim>\<open>os.makedir\<close>), so it makes no directory either.
\<close>

theorem remote_folder_over_local_file:
  "os_path_isfile ''a'' ex_world \<and>
   process_remote_entries [FolderMetadata ''/a''] {} ex_world ex_synced =
     (Inr {}, ex_world, ex_synced) \<and>
   make_local_dir ''a'' ex_world ex_synced =
     (Inl (AttributeError ''makedir''),
      ex_world\<lparr>fs := [([''d''], Dir 1)], trace := [Os_remove ''a'']\<rparr>, ex_remote_only)"
  by (simp add: model_defs example_defs)

subsection \<open>save_state\<close>

lemma comps_Nil [simp]: "comps [] = []"
  by (simp add: comps_def)

lemma write_file_outcome: "fst (write_file p c w) = fst (write_file p c' w)"
  by (simp add: write_file_def Let_def)

lemma write_file_content:
  "fst (write_file p c w) = Inr () \<Longrightarrow> node_at (snd (write_file p c w)) p = Some (File (clock w) c)"
  by (auto simp: write_file_def Let_def node_at_def update_conv' split: if_splits)

text \<open>
  C9, as amended. save_state writes the state file in place. When the file can be opened,
  the disk holds, one after the other, every prefix of the new serialised state that ends
  where a write ends, the empty prefix first (the file as \<^verbatim>\<open>open(STATE_FILE, 'w')\<close> leaves
  it); when save_state returns the file holds the whole new serialised state.
\<close>

theorem save_state_writes_in_place:
  assumes "fst (save_state pickle_dump state w) = Inr ()"
  shows "map disk_content (save_state_disk pickle_dump state w) =
           map (\<lambda>n. Some (concat (take n (pickle_dump state))))
             [0..<Suc (length (pickle_dump state))] \<and>
         disk_content (snd (save_state pickle_dump state w)) = Some (concat (pickle_dump state))"
proof -
  have ok: "fst (write_file STATE_FILE c (py_print [Str (CHR 0x0A # ''Saving Local State'')] w)) = Inr ()"
    for c
    using assms write_file_outcome [of STATE_FILE c _ "concat (pickle_dump state)"]
    by (simp add: save_state_def)
  have "disk_content (snd (write_file STATE_FILE c
          (py_print [Str (CHR 0x0A # ''Saving Local State'')] w))) = Some c" for c
    using write_file_content [OF ok [of c]] by (simp add: disk_content_def)
  then show ?thesis
    by (simp add: save_state_disk_def save_state_def del: upt_Suc)
qed

theorem save_state_writes_in_place_witness:
  "fst (save_state (\<lambda>s. [''N'', ''EW'']) ex_synced ex_local) = Inr () \<and>
   map disk_content (save_state_disk (\<lambda>s. [''N'', ''EW'']) ex_synced ex_local) =
     map (\<lambda>n. Some (concat (take n [''N'', ''EW'']))) [0..<Suc (length [''N'', ''EW''])] \<and>
   disk_content (snd (save_state (\<lambda>s. [''N'', ''EW'']) ex_synced ex_local)) =
     Some (concat [''N'', ''EW''])"
proof -
  have ok: "fst (save_state (\<lambda>s. [''N'', ''EW'']) ex_synced ex_local) = Inr ()"
    by (simp add: model_defs ex_local_def)
  show ?thesis
    using ok save_state_writes_in_place [OF ok] by simp
qed

text \<open>
  C9 as stated fails. The state file holds \<^verbatim>\<open>S\<close>; a save whose serialised state is
  \<^verbatim>\<open>NEW\<close>, written as \<^verbatim>\<open>N\<close> and \<^verbatim>\<open>EW\<close>, takes the file through the empty string and
  \<^verbatim>\<open>N\<close>, which are neither the old content nor the new one.
\<close>

theorem save_state_empties_the_file_first:
  "disk_content ex_local = Some ''S'' \<and>
   map disk_content (save_state_disk (\<lambda>s. [''N'', ''EW'']) ex_synced ex_local) =
     [Some [], Some ''N'', Some ''NEW'']"
  by (simp add: disk_content_def model_defs ex_local_def)

subsection \<open>Two runs in a row\<close>

text \<open>
  What delete_remote does to the app folder when, as in every listing, the paths of the
  folder begin with \<^verbatim>\<open>/\<close> and the path of the program does not: nothing.
\<close>

lemma delete_remote_keeps_app_folder:
  assumes "\<forall>k \<in> set (map fst (store w)). startswith k ''/''" and "\<not> startswith path ''/''"
  shows "store (world_after (delete_remote path w s)) = store w \<and>
         dbx_calls (trace (world_after (delete_remote path w s))) =
           dbx_calls (trace w) @ [Files_delete path]"
proof -
  have "path \<notin> set (map fst (store w))"
    using assms by auto
  then have "map_of (store w) path = None"
    by (simp add: map_of_eq_None_iff)
  then show ?thesis
    by (simp add: delete_remote_def delete_maps_cases files_delete_def emit_def Let_def)
qed

lemma first_run:
  "ex_first_run d =
     (Inr (),
      \<lparr>fs = [([''.dropbox_state''], File 6 (concat (d init_state)))], clock = 7,
        store = [(''/x'', RFile ''r0'' ''abc'')], rev_count = 1, sessions = [],
        online = True, page_size = 9,
        trace =
          [Print [Str (CHR 0x0A # ''Updating From Dropbox'')],
           Dbx (Files_list_folder [] True),
           Print [Str (CHR 0x0A # ''Saving Local State'')],
           Print [Str (CHR 0x0A # ''Checking For New Or Updated Local Files'')],
           Print [Str (CHR 0x0A # ''Checking For Deleted Local Files'')],
           Print [Str (CHR 0x09 # ''Deleting On Dropbox: ''), Str ''x'',
                  Str '' -- File Deleted Locally''],
           Dbx (Files_delete ''x''),
           Print [Str (CHR 0x0A # ''Saving Local State'')],
           Print [Str (CHR 0x0A # ''Sync Complete'')]]\<rparr>,
      init_state)"
  by (simp add: ex_first_run_def model_defs ex_deleted_def ex_x_def)

text \<open>
  C5 at an input where the code departs from it. Dropbox paths begin with \<^verbatim>\<open>/\<close>: the
  listing gives \<^verbatim>\<open>/x\<close>, and upload and download_remote pass
  \<^verbatim>\<open>os.path.join('/', path)\<close>. delete_remote passes the bare \<^verbatim>\<open>path\<close>, which names no
  entry of the app folder; the call fails and the failure is dropped. The first run
  transfers nothing, asks for the deletion of \<^verbatim>\<open>x\<close>, leaves the app folder as it was
  and forgets \<^verbatim>\<open>x\<close> in both maps. The second run, with nothing changed in between, finds
  \<^verbatim>\<open>/x\<close> in the listing and downloads it.
\<close>

theorem second_run_downloads:
  "outcome (ex_first_run d) = Inr () \<and>
   dbx_calls (trace (world_after (ex_first_run d))) =
     [Files_list_folder [] True, Files_delete ''x''] \<and>
   store (world_after (ex_first_run d)) = store ex_deleted \<and>
   state_after (ex_first_run d) = init_state \<and>
   outcome (ex_second_run d) = Inr () \<and>
   dbx_calls (trace (world_after (ex_second_run d))) =
     dbx_calls (trace (world_after (ex_first_run d))) @
       [Files_list_folder [] True, Files_download_to_file ''x'' ''/x'']"
  by (simp add: ex_second_run_def first_run) (simp add: model_defs ex_deleted_def)

subsection \<open>upload\<close>

lemma upload_loop_appends:
  "(length c - off) div 10000000 = k \<Longrightarrow> off \<le> length c \<Longrightarrow> online w \<Longrightarrow>
   map_of (sessions w) i = Some (take off c) \<Longrightarrow>
   \<exists>w'. upload_loop (take 10000000 (drop off c)) (drop (off + 10000000) c) (Some i)
           (Some (UploadSessionCursor i off)) off w =
          (Inr (drop (off + k * 10000000) c, Some (UploadSessionCursor i (off + k * 10000000))), w') \<and>
        dbx_calls (trace w') = dbx_calls (trace w) @
          map (\<lambda>j. Files_upload_session_append_v2 (take 10000000 (drop (off + j * 10000000) c))
                      (Some (UploadSessionCursor i (off + j * 10000000))) False) [0..<k] \<and>
        map_of (sessions w') i = Some (take (off + k * 10000000) c) \<and>
        online w' \<and> store w' = store w \<and> fs w' = fs w \<and> rev_count w' = rev_count w"
proof (induction k arbitrary: off w)
  case 0
  then have short: "length c - off < 10000000"
    by (simp add: div_eq_0_iff)
  then have "take 10000000 (drop off c) = drop off c" by simp
  with short 0 show ?case
    by (simp add: upload_loop.simps [of "drop off c"])
next
  case (Suc k)
  then have long: "10000000 \<le> length c - off"
    by (metis div_eq_0_iff nat.distinct(1) not_less zero_neq_numeral)
  then have k: "(length c - (off + 10000000)) div 10000000 = k" and le: "off + 10000000 \<le> length c"
    using Suc.prems(1) by (simp_all add: le_div_geq)
  define w1 where "w1 = (emit (Dbx (Files_upload_session_append_v2 (take 10000000 (drop off c))
        (Some (UploadSessionCursor i off)) False)) w)
        \<lparr>sessions := AList.update i (take off c @ take 10000000 (drop off c)) (sessions w)\<rparr>"
  define w2 where "w2 = (if (off + 10000000) mod 100000000 = 0
                  then py_print [Str [CHR 0x09]] (py_print [Str ''.: '', Num (off + 10000000)] w1)
                else py_print [Str ''.''] w1)"
  have app: "files_upload_session_append_v2 (take 10000000 (drop off c)) (Some (UploadSessionCursor i off)) False w
      = (Inr (), w1)"
    using Suc.prems by (simp add: files_upload_session_append_v2_def session_at_def emit_def Let_def w1_def)
  have tk: "take off c @ take 10000000 (drop off c) = take (off + 10000000) c"
    by (simp add: take_add)
  have w2: "online w2" "map_of (sessions w2) i = Some (take (off + 10000000) c)"
    "store w2 = store w" "fs w2 = fs w" "rev_count w2 = rev_count w"
    "dbx_calls (trace w2) = dbx_calls (trace w) @ [Files_upload_session_append_v2 (take 10000000 (drop off c))
        (Some (UploadSessionCursor i off)) False]"
    using Suc.prems by (simp_all add: w2_def w1_def emit_def update_conv' tk)
  obtain w' where IH:
    "upload_loop (take 10000000 (drop (off + 10000000) c)) (drop (off + 10000000 + 10000000) c) (Some i)
           (Some (UploadSessionCursor i (off + 10000000))) (off + 10000000) w2 =
          (Inr (drop (off + 10000000 + k * 10000000) c, Some (UploadSessionCursor i (off + 10000000 + k * 10000000))), w')"
    "dbx_calls (trace w') = dbx_calls (trace w2) @
          map (\<lambda>j. Files_upload_session_append_v2 (take 10000000 (drop (off + 10000000 + j * 10000000) c))
                      (Some (UploadSessionCursor i (off + 10000000 + j * 10000000))) False) [0..<k]"
    "map_of (sessions w') i = Some (take (off + 10000000 + k * 10000000) c)"
    "online w'" "store w' = store w2" "fs w' = fs w2" "rev_count w' = rev_count w2"
    using Suc.IH [OF k le w2(1) w2(2)] by blast
  have len: "length (take 10000000 (drop off c)) = 10000000"
    using long by simp
  have step: "upload_loop (take 10000000 (drop off c)) (drop (off + 10000000) c) (Some i)
           (Some (UploadSessionCursor i off)) off w =
      upload_loop (take 10000000 (drop (off + 10000000) c)) (drop (off + 10000000 + 10000000) c) (Some i)
           (Some (UploadSessionCursor i (off + 10000000))) (off + 10000000) w2"
    using long by (subst upload_loop.simps) (simp add: Let_def app w2_def min_absorb2 ac_simps)
  have maps: "map (\<lambda>j. Files_upload_session_append_v2 (take 10000000 (drop (off + j * 10000000) c))
                      (Some (UploadSessionCursor i (off + j * 10000000))) False) [0..<Suc k]
      = Files_upload_session_append_v2 (take 10000000 (drop off c)) (Some (UploadSessionCursor i off)) False #
        map (\<lambda>j. Files_upload_session_append_v2 (take 10000000 (drop (off + 10000000 + j * 10000000) c))
                      (Some (UploadSessionCursor i (off + 10000000 + j * 10000000))) False) [0..<k]"
    by (simp add: map_upt_Suc add.assoc del: upt_Suc)
  show ?case
    using IH w2 step maps by (simp add: add.assoc del: upt_Suc)
qed

lemma upload_session_calls:
  assumes rd: "read_file path w = Inr c" and long: "10000000 \<le> length c" and on: "online w"
    and nf: "map_of (store w) (os_path_join ''/'' path) \<noteq> Some RFolder"
  shows "\<exists>w'. upload_session path w = (Inr (new_rev (rev_count w)), w') \<and>
           dbx_calls (trace w') = dbx_calls (trace w) @
             session_calls (new_session (length (sessions w))) c (os_path_join ''/'' path) \<and>
           map_of (store w') (os_path_join ''/'' path) = Some (RFile (new_rev (rev_count w)) c) \<and>
           fs w' = fs w"
proof -
  define sid where "sid = new_session (length (sessions w))"
  define k where "k = (length c - 10000000) div 10000000"
  define w1 where "w1 = py_print [Str (CHR 0x09 # ''.'')]
     ((emit (Dbx (Files_upload_session_start (take 10000000 c) False)) w)
        \<lparr>sessions := AList.update sid (take 10000000 c) (sessions w)\<rparr>)"
  have w1: "online w1" "map_of (sessions w1) sid = Some (take 10000000 c)" "store w1 = store w"
    "fs w1 = fs w" "rev_count w1 = rev_count w"
    "dbx_calls (trace w1) = dbx_calls (trace w) @ [Files_upload_session_start (take 10000000 c) False]"
    using on by (simp_all add: w1_def emit_def update_conv')
  have first: "upload_loop (take 10000000 c) (drop 10000000 c) None None 0 w =
      upload_loop (take 10000000 (drop 10000000 c)) (drop 20000000 c) (Some sid)
        (Some (UploadSessionCursor sid 10000000)) 10000000 w1"
    using long on
    by (subst upload_loop.simps)
       (simp add: Let_def files_upload_session_start_def min_absorb2 w1_def sid_def emit_def ac_simps)
  obtain w2 where loop:
    "upload_loop (take 10000000 (drop 10000000 c)) (drop 20000000 c) (Some sid)
        (Some (UploadSessionCursor sid 10000000)) 10000000 w1 =
       (Inr (drop (10000000 + k * 10000000) c,
             Some (UploadSessionCursor sid (10000000 + k * 10000000))), w2)"
    "dbx_calls (trace w2) = dbx_calls (trace w1) @
          map (\<lambda>j. Files_upload_session_append_v2 (take 10000000 (drop (10000000 + j * 10000000) c))
                      (Some (UploadSessionCursor sid (10000000 + j * 10000000))) False) [0..<k]"
    "map_of (sessions w2) sid = Some (take (10000000 + k * 10000000) c)"
    "online w2" "store w2 = store w1" "fs w2 = fs w1" "rev_count w2 = rev_count w1"
    using upload_loop_appends [OF k_def [symmetric] long w1(1) w1(2)] by auto
  have K: "length c div 10000000 = Suc k"
    using long by (simp add: k_def le_div_geq)
  have le: "10000000 + k * 10000000 \<le> length c"
  proof -
    have "length c div 10000000 * 10000000 \<le> length c" by simp
    then show ?thesis by (simp add: K)
  qed
  have maps: "map (\<lambda>j. Files_upload_session_append_v2 (take 10000000 (drop (j * 10000000) c))
                 (Some (UploadSessionCursor sid (j * 10000000))) False) [1..<Suc k]
      = map (\<lambda>j. Files_upload_session_append_v2 (take 10000000 (drop (10000000 + j * 10000000) c))
                      (Some (UploadSessionCursor sid (10000000 + j * 10000000))) False) [0..<k]"
  proof -
    have "[1..<Suc k] = map Suc [0..<k]" by (simp add: map_Suc_upt del: upt_Suc)
    then show ?thesis by (simp add: comp_def del: upt_Suc)
  qed
  have fin: "\<exists>w'. files_upload_session_finish (drop (10000000 + k * 10000000) c)
        (Some (UploadSessionCursor sid (10000000 + k * 10000000)))
        (CommitInfo (os_path_join ''/'' path) WriteMode_overwrite True) w2 =
      (Inr (new_rev (rev_count w)), w') \<and>
      dbx_calls (trace w') = dbx_calls (trace w2) @
         [Files_upload_session_finish (drop (10000000 + k * 10000000) c)
           (Some (UploadSessionCursor sid (10000000 + k * 10000000)))
           (CommitInfo (os_path_join ''/'' path) WriteMode_overwrite True)] \<and>
      map_of (store w') (os_path_join ''/'' path) = Some (RFile (new_rev (rev_count w)) c) \<and>
      fs w' = fs w"
    using loop(3-7) w1(3-5) nf le
    by (simp add: files_upload_session_finish_def session_at_def commit_def emit_def Let_def
          update_conv')
  then obtain w3 where w3:
    "files_upload_session_finish (drop (10000000 + k * 10000000) c)
        (Some (UploadSessionCursor sid (10000000 + k * 10000000)))
        (CommitInfo (os_path_join ''/'' path) WriteMode_overwrite True) w2 =
      (Inr (new_rev (rev_count w)), w3)"
    "dbx_calls (trace w3) = dbx_calls (trace w2) @
         [Files_upload_session_finish (drop (10000000 + k * 10000000) c)
           (Some (UploadSessionCursor sid (10000000 + k * 10000000)))
           (CommitInfo (os_path_join ''/'' path) WriteMode_overwrite True)]"
    "map_of (store w3) (os_path_join ''/'' path) = Some (RFile (new_rev (rev_count w)) c)"
    "fs w3 = fs w"
    by blast
  have "upload_session path w = (Inr (new_rev (rev_count w)), py_print [Str ''.''] w3)"
    by (simp add: upload_session_def rd first loop(1) w3(1))
  moreover have "dbx_calls (trace (py_print [Str ''.''] w3)) = dbx_calls (trace w) @
             session_calls sid c (os_path_join ''/'' path)"
    using maps by (simp add: w3(2) loop(2) w1(6) session_calls_def K del: upt_Suc)
  ultimately show ?thesis
    using w3(3,4) by (simp add: sid_def)
qed

lemma node_at_fs: "fs w' = fs w \<Longrightarrow> node_at w' p = node_at w p"
  by (simp add: node_at_def)

lemma upload_whole_calls:
  assumes rd: "read_file path w = Inr c" and on: "online w"
    and nf: "map_of (store w) (os_path_join ''/'' path) \<noteq> Some RFolder"
  shows "\<exists>w'. upload_whole path w = (Inr (new_rev (rev_count w)), w') \<and>
           dbx_calls (trace w') = dbx_calls (trace w) @
             [Files_upload c (os_path_join ''/'' path) WriteMode_overwrite True] \<and>
           map_of (store w') (os_path_join ''/'' path) = Some (RFile (new_rev (rev_count w)) c) \<and>
           fs w' = fs w"
  using assms
  by (simp add: upload_whole_def files_upload_def commit_def emit_def Let_def update_conv')

text \<open>
  C4. Let upload be called for a local file with the content \<open>c\<close>, online, the
  destination not being a folder of the app folder. Then upload returns. If the file has
  more than 140000000 bytes, its calls to the client are those of the chunked upload:
  the session's calls as session_calls lists them, in 10 MB chunks, each cursor at the
  number of bytes sent before it, the last call with the rest of the file and the commit
  descriptor (destination \<^verbatim>\<open>os.path.join('/', path)\<close>, mode overwrite). If it has at most
  140000000 bytes, its only call is one \<^verbatim>\<open>files_upload\<close> of the whole content to that
  destination in mode overwrite. Either way the app folder then holds the content under a
  new revision, which both maps record with the file's modification time.
\<close>

theorem upload_by_size:
  assumes on: "online w" and isfile: "node_at w path = Some (File t c)"
    and nf: "map_of (store w) (os_path_join ''/'' path) \<noteq> Some RFolder"
  shows
    "outcome (upload path because w s) = Inr () \<and>
     (140000000 < length c \<longrightarrow>
        dbx_calls (trace (world_after (upload path because w s))) =
          dbx_calls (trace w) @
            session_calls (new_session (length (sessions w))) c (os_path_join ''/'' path)) \<and>
     (length c \<le> 140000000 \<longrightarrow>
        dbx_calls (trace (world_after (upload path because w s))) =
          dbx_calls (trace w) @ [Files_upload c (os_path_join ''/'' path) WriteMode_overwrite True]) \<and>
     map_of (store (world_after (upload path because w s))) (os_path_join ''/'' path) =
       Some (RFile (new_rev (rev_count w)) c) \<and>
     state_after (upload path because w s) =
       s\<lparr>local_files := dict_set path \<lparr>revision = new_rev (rev_count w), modified = t\<rparr> (local_files s),
         remote_files := dict_set path \<lparr>revision = new_rev (rev_count w), modified = t\<rparr> (remote_files s)\<rparr>"
proof -
  define w0 where "w0 = (case because of
                  None \<Rightarrow> py_print [Str (CHR 0x09 # ''Uploading: ''), Str path] w
                | Some b \<Rightarrow> py_print [Str (CHR 0x09 # ''Uploading: ''), Str path, Str b] w)"
  have w0: "online w0" "fs w0 = fs w" "store w0 = store w" "rev_count w0 = rev_count w"
    "sessions w0 = sessions w" "dbx_calls (trace w0) = dbx_calls (trace w)"
    using on by (simp_all add: w0_def split: option.splits)
  have file0: "node_at w0 path = Some (File t c)"
    using isfile node_at_fs [OF w0(2)] by simp
  then have rd: "read_file path w0 = Inr c" and sz: "os_path_getsize path w0 = Inr (length c)"
    by (simp_all add: read_file_def os_path_getsize_def)
  have nf0: "map_of (store w0) (os_path_join ''/'' path) \<noteq> Some RFolder"
    using nf w0(3) by simp
  show ?thesis
  proof (cases "140000000 < length c")
    case True
    then have "10000000 \<le> length c" by simp
    from upload_session_calls [OF rd this w0(1) nf0] obtain w1 where w1:
      "upload_session path w0 = (Inr (new_rev (rev_count w0)), w1)"
      "dbx_calls (trace w1) = dbx_calls (trace w0) @
             session_calls (new_session (length (sessions w0))) c (os_path_join ''/'' path)"
      "map_of (store w1) (os_path_join ''/'' path) = Some (RFile (new_rev (rev_count w0)) c)"
      "fs w1 = fs w0"
      by blast
    have "os_path_getmtime path w1 = Inr t"
      using file0 node_at_fs [OF w1(4)] by (simp add: os_path_getmtime_def)
    then show ?thesis
      using True w1 w0 sz by (simp add: upload_def Let_def w0_def [symmetric])
  next
    case False
    from upload_whole_calls [OF rd w0(1) nf0] obtain w1 where w1:
      "upload_whole path w0 = (Inr (new_rev (rev_count w0)), w1)"
      "dbx_calls (trace w1) = dbx_calls (trace w0) @
             [Files_upload c (os_path_join ''/'' path) WriteMode_overwrite True]"
      "map_of (store w1) (os_path_join ''/'' path) = Some (RFile (new_rev (rev_count w0)) c)"
      "fs w1 = fs w0"
      by blast
    have "os_path_getmtime path w1 = Inr t"
      using file0 node_at_fs [OF w1(4)] by (simp add: os_path_getmtime_def)
    then show ?thesis
      using False w1 w0 sz by (simp add: upload_def Let_def w0_def [symmetric])
  qed
qed

theorem upload_by_size_witness:
  "outcome (upload ''big'' None ex_big init_state) = Inr () \<and>
   dbx_calls (trace (world_after (upload ''big'' None ex_big init_state))) =
     session_calls ''s'' (replicate 140000001 (CHR ''x'')) ''/big'' \<and>
   outcome (upload ''small'' None ex_big init_state) = Inr () \<and>
   dbx_calls (trace (world_after (upload ''small'' None ex_big init_state))) =
     [Files_upload ''abc'' ''/small'' WriteMode_overwrite True]"
proof -
  have on: "online ex_big" by (simp add: ex_big_def)
  have big: "node_at ex_big ''big'' = Some (File 3 (replicate 140000001 (CHR ''x'')))"
    by (simp add: ex_big_def node_at_def comps_def)
  have small: "node_at ex_big ''small'' = Some (File 4 ''abc'')"
    by (simp add: ex_big_def node_at_def comps_def)
  have nf: "map_of (store ex_big) (os_path_join ''/'' ''big'') \<noteq> Some RFolder"
    "map_of (store ex_big) (os_path_join ''/'' ''small'') \<noteq> Some RFolder"
    by (simp_all add: ex_big_def)
  have j: "os_path_join ''/'' ''big'' = ''/big''" "os_path_join ''/'' ''small'' = ''/small''"
    by (simp_all add: os_path_join_def startswith_def endswith_def)
  have e: "sessions ex_big = []" "trace ex_big = []"
    by (simp_all add: ex_big_def)
  show ?thesis
    using upload_by_size [OF on big nf(1), of None init_state]
      upload_by_size [OF on small nf(2), of None init_state]
    by (simp add: j e new_session_def)
qed

text \<open>
  The chunks of session_calls make up the file, and the offsets go up by 10 MB, the
  length of every chunk sent before the last call.
\<close>

lemma concat_chunks:
  "concat (map (\<lambda>j. take 10000000 (drop (j * 10000000) c)) [0..<k]) = take (k * 10000000) c"
proof (induction k)
  case 0
  show ?case by simp
next
  case (Suc k)
  have "take (k * 10000000) c @ take 10000000 (drop (k * 10000000) c) = take (k * 10000000 + 10000000) c"
    by (simp add: take_add)
  with Suc show ?case by (simp add: add.commute)
qed

lemma session_calls_content:
  assumes "10000000 \<le> length c"
  shows "concat (map sent_bytes (session_calls sid c dest)) = c"
proof -
  obtain k where K: "length c div 10000000 = Suc k"
    using assms by (metis le_div_geq zero_less_numeral)
  have "[0..<Suc k] = 0 # [1..<Suc k]"
    by (simp add: upt_rec del: upt_Suc)
  then have "concat (map (\<lambda>j. take 10000000 (drop (j * 10000000) c)) [0..<Suc k]) =
      take 10000000 c @ concat (map (\<lambda>j. take 10000000 (drop (j * 10000000) c)) [1..<Suc k])"
    by (simp del: upt_Suc)
  then have "take 10000000 c @ concat (map (\<lambda>j. take 10000000 (drop (j * 10000000) c)) [1..<Suc k])
      = take (Suc k * 10000000) c"
    using concat_chunks [of c "Suc k"] by simp
  then show ?thesis
    by (simp add: session_calls_def K comp_def del: upt_Suc mult_Suc)
       (metis append.assoc append_take_drop_id)
qed

lemma session_calls_offsets:
  assumes "10000000 \<le> length c"
  shows "map cursor_offset (session_calls sid c dest) =
     None # map (\<lambda>j. Some (j * 10000000)) [1..<Suc (length c div 10000000)]"
proof -
  obtain k where K: "length c div 10000000 = Suc k"
    using assms by (metis le_div_geq zero_less_numeral)
  show ?thesis
    by (simp add: session_calls_def comp_def K)
qed

subsection \<open>execute_delta\<close>

lemma file_paths_simps [simp]:
  "file_paths [] = {}"
  "file_paths (FileMetadata pd r # es) = insert (drop 1 pd) (file_paths es)"
  "file_paths (FolderMetadata pd # es) = file_paths es"
  "file_paths (xs @ ys) = file_paths xs \<union> file_paths ys"
  by (auto simp: file_paths_def)

lemma trace_write_file [simp]: "trace (snd (write_file p c w)) = trace w"
  by (simp add: write_file_def Let_def)

lemma store_write_file [simp]: "store (snd (write_file p c w)) = store w"
  by (simp add: write_file_def Let_def)

lemma trace_os_makedirs [simp]: "trace (snd (os_makedirs p w)) = trace w @ [Os_makedirs p]"
  by (simp add: os_makedirs_def emit_def Let_def)

lemma store_os_makedirs [simp]: "store (snd (os_makedirs p w)) = store w"
  by (simp add: os_makedirs_def emit_def Let_def)

lemma online_os_makedirs [simp]: "online (snd (os_makedirs p w)) = online w"
  by (simp add: os_makedirs_def emit_def Let_def)

lemma write_file_frame:
  "write_file p c w = (r, w') \<Longrightarrow> trace w' = trace w \<and> store w' = store w"
  using trace_write_file [of p c w] store_write_file [of p c w] by simp

lemma os_makedirs_frame:
  "os_makedirs p w = (r, w') \<Longrightarrow> trace w' = trace w @ [Os_makedirs p] \<and> store w' = store w"
  using trace_os_makedirs [of p w] store_os_makedirs [of p w] by simp

lemma files_download_to_file_frame:
  "files_download_to_file a b w = (r, w') \<Longrightarrow>
     trace w' = trace w @ [Dbx (Files_download_to_file a b)] \<and> store w' = store w"
  by (auto simp: files_download_to_file_def emit_def Let_def
           split: option.splits rnode.splits prod.splits sum.splits if_splits
           dest!: write_file_frame)

lemma download_remote_ok:
  assumes "download_remote path b w s = (Inr u, w', s')"
  shows "removals (trace w') = removals (trace w) \<and> store w' = store w \<and>
         (\<exists>m. s' = s\<lparr>local_files := dict_set path m (local_files s),
                      remote_files := dict_set path m (remote_files s)\<rparr>)"
  using assms unfolding download_remote_def Let_def
  by (auto split: sum.splits prod.splits if_splits option.splits
           dest!: os_makedirs_frame files_download_to_file_frame)

lemma process_remote_entry_ok:
  assumes "process_remote_entry e seen w s = (Inr seen', w', s')"
  shows "seen' = seen \<union> file_paths [e] \<and> removals (trace w') = removals (trace w) \<and>
         store w' = store w \<and>
         (\<forall>p. p \<notin> seen' \<longrightarrow> map_of (local_files s') p = map_of (local_files s) p \<and>
                             map_of (remote_files s') p = map_of (remote_files s) p)"
proof (cases e)
  case (FileMetadata pd r)
  show ?thesis
  proof (cases "\<not> has_key (local_files s) (drop 1 pd) \<or>
                (\<exists>m. map_of (local_files s) (drop 1 pd) = Some m \<and> r \<noteq> revision m)")
    case True
    then obtain b where "download_remote (drop 1 pd) b w s = (Inr (), w', s')" and "seen' = insert (drop 1 pd) seen"
      using assms FileMetadata
      by (auto simp: has_key_def split: option.splits sum.splits prod.splits if_splits)
    then show ?thesis
      using download_remote_ok [of "drop 1 pd" b w s "()" w' s'] FileMetadata
      by (auto simp: dict_set_def update_conv')
  next
    case False
    then show ?thesis
      using assms FileMetadata by (auto simp: has_key_def split: option.splits)
  qed
next
  case (FolderMetadata pd)
  then show ?thesis
    using assms
    by (auto simp: make_local_dir_def os_path_exists_def node_at_def
             split: if_splits sum.splits prod.splits dest!: os_makedirs_frame)
qed

lemma process_remote_entries_ok:
  "process_remote_entries es seen w s = (Inr seen', w', s') \<Longrightarrow>
     seen' = seen \<union> file_paths es \<and> removals (trace w') = removals (trace w) \<and>
     store w' = store w \<and>
     (\<forall>p. p \<notin> seen' \<longrightarrow> map_of (local_files s') p = map_of (local_files s) p \<and>
                         map_of (remote_files s') p = map_of (remote_files s) p)"
proof (induction es arbitrary: seen w s)
  case Nil
  then show ?case by simp
next
  case (Cons e es)
  then obtain seen1 w1 s1 where
    e: "process_remote_entry e seen w s = (Inr seen1, w1, s1)" and
    es: "process_remote_entries es seen1 w1 s1 = (Inr seen', w', s')"
    by (auto split: sum.splits prod.splits)
  from process_remote_entry_ok [OF e] Cons.IH [OF es] show ?case
    by (cases e) auto
qed

lemma concat_pages: "concat (pages n xs) = xs"
proof (induction n xs rule: pages.induct)
  case (1 n xs)
  show ?case
  proof (cases "xs = []")
    case True
    then show ?thesis by (simp add: pages.simps)
  next
    case False
    with 1 show ?thesis
      by (subst pages.simps) simp
  qed
qed

lemma list_loop_pages:
  "list_loop (first_page ps) seen w s = (Inr seen', w', s') \<Longrightarrow>
     seen' = seen \<union> file_paths (concat ps) \<and> removals (trace w') = removals (trace w) \<and>
     store w' = store w \<and>
     (\<forall>p. p \<notin> seen' \<longrightarrow> map_of (local_files s') p = map_of (local_files s) p \<and>
                         map_of (remote_files s') p = map_of (remote_files s) p)"
proof (induction ps arbitrary: seen w s)
  case Nil
  then show ?case
    by (subst (asm) list_loop.simps) (simp add: first_page_def)
next
  case (Cons pg rest)
  from Cons.prems obtain seen1 w1 s1 where
    pg: "process_remote_entries pg seen w s = (Inr seen1, w1, s1)"
    by (subst (asm) list_loop.simps) (auto simp: first_page_def split: sum.splits prod.splits)
  note f1 = process_remote_entries_ok [OF pg]
  show ?case
  proof (cases "rest = []")
    case True
    with Cons.prems pg have "seen' = seen1 \<and> w' = w1 \<and> s' = s1"
      by (subst (asm) list_loop.simps) (simp add: first_page_def)
    with f1 True show ?thesis by simp
  next
    case False
    with Cons.prems pg have
      rest: "list_loop (first_page rest) seen1 (emit (Dbx (Files_list_folder_continue rest)) w1) s1
               = (Inr seen', w', s')"
      by (subst (asm) list_loop.simps)
         (auto simp: first_page_def [of "pg # rest"] files_list_folder_continue_def Let_def
               split: if_splits)
    from Cons.IH [OF rest] f1 show ?thesis
      by (auto simp: emit_def)
  qed
qed

lemma list_all_pages_ok:
  assumes "list_all_pages w s = (Inr seen, w1, s1)"
  shows "seen = file_paths (listing w) \<and> removals (trace w1) = removals (trace w) \<and>
         store w1 = store w \<and>
         (\<forall>p. p \<notin> seen \<longrightarrow> map_of (local_files s1) p = map_of (local_files s) p \<and>
                        map_of (remote_files s1) p = map_of (remote_files s) p)"
proof -
  from assms have
    "list_loop (first_page (pages (page_size w) (listing w))) {}
       (emit (Dbx (Files_list_folder [] True)) w) s = (Inr seen, w1, s1)"
    by (auto simp: list_all_pages_def files_list_folder_def Let_def emit_def listing_def
             split: if_splits)
  from list_loop_pages [OF this] show ?thesis
    by (simp add: concat_pages emit_def)
qed

lemma delete_local_both:
  assumes "has_key (local_files s) k" "has_key (remote_files s) k"
  shows "delete_local k w s =
     (Inr (), snd (os_remove k (py_print [Str (CHR 0x09 # ''Deleting Locally: ''), Str k,
                     Str '' -- File No Longer On Dropbox''] w)),
      s\<lparr>local_files := AList.delete k (local_files s), remote_files := AList.delete k (remote_files s)\<rparr>)"
  using assms by (simp add: delete_local_def delete_maps_cases)

lemma delete_unlisted_ok:
  assumes "distinct ks" "\<forall>k \<in> set ks. has_key (remote_files s) k"
  shows "outcome (delete_unlisted ks seen w s) = Inr () \<and>
         removals (trace (world_after (delete_unlisted ks seen w s))) =
           removals (trace w) @ filter (\<lambda>p. p \<notin> seen \<and> has_key (local_files s) p) ks \<and>
         dbx_calls (trace (world_after (delete_unlisted ks seen w s))) = dbx_calls (trace w) \<and>
         (\<forall>p. map_of (local_files (state_after (delete_unlisted ks seen w s))) p =
               (if p \<in> set ks \<and> p \<notin> seen \<and> has_key (local_files s) p then None
                else map_of (local_files s) p)) \<and>
         (\<forall>p. map_of (remote_files (state_after (delete_unlisted ks seen w s))) p =
               (if p \<in> set ks \<and> p \<notin> seen \<and> has_key (local_files s) p then None
                else map_of (remote_files s) p))"
  using assms
proof (induction ks arbitrary: w s)
  case Nil
  then show ?case by simp
next
  case (Cons k ks)
  show ?case
  proof (cases "k \<notin> seen \<and> has_key (local_files s) k")
    case True
    define w1 where "w1 = snd (os_remove k (py_print [Str (CHR 0x09 # ''Deleting Locally: ''), Str k,
                     Str '' -- File No Longer On Dropbox''] w))"
    define s1 where "s1 = s\<lparr>local_files := AList.delete k (local_files s),
                            remote_files := AList.delete k (remote_files s)\<rparr>"
    have dl: "delete_local k w s = (Inr (), w1, s1)"
      using True Cons.prems by (simp add: delete_local_both w1_def s1_def)
    have pre: "distinct ks" "\<forall>k' \<in> set ks. has_key (remote_files s1) k'"
      using Cons.prems by (auto simp: s1_def has_key_delete)
    have same: "filter (\<lambda>p. p \<notin> seen \<and> has_key (local_files s1) p) ks =
                filter (\<lambda>p. p \<notin> seen \<and> has_key (local_files s) p) ks"
      using Cons.prems by (auto simp: s1_def has_key_delete intro!: filter_cong)
    have step: "delete_unlisted (k # ks) seen w s = delete_unlisted ks seen w1 s1"
      using True dl by simp
    have tr: "removals (trace w1) = removals (trace w) @ [k]" "dbx_calls (trace w1) = dbx_calls (trace w)"
      by (simp_all add: w1_def)
    have lf1: "map_of (local_files s1) p = (if p = k then None else map_of (local_files s) p)" for p
      by (simp add: s1_def delete_conv')
    have rf1: "map_of (remote_files s1) p = (if p = k then None else map_of (remote_files s) p)" for p
      by (simp add: s1_def delete_conv')
    have hk1: "has_key (local_files s1) p = (p \<noteq> k \<and> has_key (local_files s) p)" for p
      by (simp add: s1_def has_key_delete)
    note IH = Cons.IH [OF pre, of w1, unfolded same]
    show ?thesis
      unfolding step using IH True Cons.prems(1)
      by (auto simp: tr lf1 rf1 hk1)
  next
    case False
    then have step: "delete_unlisted (k # ks) seen w s = delete_unlisted ks seen w s"
      by auto
    have pre: "distinct ks" "\<forall>k' \<in> set ks. has_key (remote_files s) k'"
      using Cons.prems by auto
    note IH = Cons.IH [OF pre, of w]
    show ?thesis
      unfolding step using IH False by auto
  qed
qed

text \<open>
  What the listing loop leaves alone, however it ends: it calls \<^verbatim>\<open>os.remove\<close> nowhere (the
  one call in make_local_dir is behind a test that the loop has already decided the other
  way), and it takes no key out of either map.
\<close>

lemma download_remote_keeps:
  assumes "download_remote path b w s = (r, w', s')"
  shows "removals (trace w') = removals (trace w) \<and>
         (\<forall>p. has_key (local_files s) p \<longrightarrow> has_key (local_files s') p) \<and>
         (\<forall>p. has_key (remote_files s) p \<longrightarrow> has_key (remote_files s') p)"
  using assms unfolding download_remote_def Let_def
  by (auto simp: has_key_set split: sum.splits prod.splits if_splits option.splits
           dest!: os_makedirs_frame files_download_to_file_frame)

lemma process_remote_entry_keeps:
  assumes "process_remote_entry e seen w s = (r, w', s')"
  shows "removals (trace w') = removals (trace w) \<and>
         (\<forall>p. has_key (local_files s) p \<longrightarrow> has_key (local_files s') p) \<and>
         (\<forall>p. has_key (remote_files s) p \<longrightarrow> has_key (remote_files s') p)"
proof (cases e)
  case (FileMetadata pd rv)
  show ?thesis
  proof (cases "map_of (local_files s) (drop 1 pd) = None \<or>
                (\<exists>m. map_of (local_files s) (drop 1 pd) = Some m \<and> rv \<noteq> revision m)")
    case True
    then obtain b r0 where "download_remote (drop 1 pd) b w s = (r0, w', s')"
      using assms FileMetadata
      by (auto split: option.splits sum.splits prod.splits if_splits)
    from download_remote_keeps [OF this] show ?thesis .
  next
    case False
    then show ?thesis
      using assms FileMetadata by (auto split: option.splits)
  qed
next
  case (FolderMetadata pd)
  then show ?thesis
    using assms
    by (auto simp: make_local_dir_def os_path_exists_def node_at_def
             split: if_splits sum.splits prod.splits dest!: os_makedirs_frame)
qed

lemma process_remote_entries_keeps:
  "process_remote_entries es seen w s = (r, w', s') \<Longrightarrow>
     removals (trace w') = removals (trace w) \<and>
     (\<forall>p. has_key (local_files s) p \<longrightarrow> has_key (local_files s') p) \<and>
     (\<forall>p. has_key (remote_files s) p \<longrightarrow> has_key (remote_files s') p)"
proof (induction es arbitrary: seen w s)
  case Nil
  then show ?case by simp
next
  case (Cons e es)
  obtain r1 w1 s1 where e: "process_remote_entry e seen w s = (r1, w1, s1)"
    by (cases "process_remote_entry e seen w s") auto
  note k = process_remote_entry_keeps [OF e]
  show ?case
  proof (cases r1)
    case (Inl x)
    with Cons.prems e have "w' = w1 \<and> s' = s1" by simp
    with k show ?thesis by simp
  next
    case (Inr seen1)
    with Cons.prems e have "process_remote_entries es seen1 w1 s1 = (r, w', s')" by simp
    from Cons.IH [OF this] k show ?thesis by simp
  qed
qed

lemma list_loop_keeps:
  "list_loop (first_page ps) seen w s = (r, w', s') \<Longrightarrow>
     removals (trace w') = removals (trace w) \<and>
     (\<forall>p. has_key (local_files s) p \<longrightarrow> has_key (local_files s') p) \<and>
     (\<forall>p. has_key (remote_files s) p \<longrightarrow> has_key (remote_files s') p)"
proof (induction ps arbitrary: seen w s)
  case Nil
  then show ?case
    by (subst (asm) list_loop.simps) (simp add: first_page_def)
next
  case (Cons pg rest)
  obtain r1 w1 s1 where pg: "process_remote_entries pg seen w s = (r1, w1, s1)"
    by (cases "process_remote_entries pg seen w s") auto
  note k = process_remote_entries_keeps [OF pg]
  show ?case
  proof (cases r1)
    case (Inl x)
    with Cons.prems pg have "w' = w1 \<and> s' = s1"
      by (subst (asm) list_loop.simps) (simp add: first_page_def)
    with k show ?thesis by simp
  next
    case (Inr seen1)
    show ?thesis
    proof (cases "rest = [] \<or> \<not> online w1")
      case True
      with Cons.prems pg Inr have
        "s' = s1 \<and> (w' = w1 \<or> w' = emit (Dbx (Files_list_folder_continue rest)) w1)"
        by (subst (asm) list_loop.simps)
           (auto simp: first_page_def files_list_folder_continue_def Let_def emit_def
                 split: if_splits)
      with k show ?thesis by (auto simp: emit_def)
    next
      case False
      with Cons.prems pg Inr have
        rest: "list_loop (first_page rest) seen1 (emit (Dbx (Files_list_folder_continue rest)) w1) s1
                 = (r, w', s')"
        by (subst (asm) list_loop.simps)
           (auto simp: first_page_def [of "pg # rest"] files_list_folder_continue_def Let_def
                       emit_def split: if_splits)
      from Cons.IH [OF rest] k show ?thesis
        by (simp add: emit_def)
    qed
  qed
qed

lemma list_all_pages_keeps:
  assumes "list_all_pages w s = (r, w1, s1)"
  shows "removals (trace w1) = removals (trace w) \<and>
         (\<forall>p. has_key (local_files s) p \<longrightarrow> has_key (local_files s1) p) \<and>
         (\<forall>p. has_key (remote_files s) p \<longrightarrow> has_key (remote_files s1) p)"
proof (cases "online w")
  case False
  with assms show ?thesis
    by (auto simp: list_all_pages_def files_list_folder_def Let_def emit_def)
next
  case True
  with assms have
    "list_loop (first_page (pages (page_size w) (listing w))) {}
       (emit (Dbx (Files_list_folder [] True)) w) s = (r, w1, s1)"
    by (auto simp: list_all_pages_def files_list_folder_def Let_def emit_def listing_def)
  from list_loop_keeps [OF this] show ?thesis
    by (simp add: emit_def)
qed

text \<open>
  C3. execute_delta deletes only after the whole listing has been consumed. If the listing
  loop ends with an exception (the first call or a continuation fails, or a download or a
  directory cannot be made), execute_delta ends with that exception, in the world and the
  state the loop left: nothing was removed locally and every key of the two maps is still
  there. If the listing is read to its end, with the set \<open>seen\<close> of file paths, the world
  \<open>w1\<close> and the state \<open>s1\<close>, then \<open>seen\<close> holds the paths of the file entries of the
  listing of the app folder; nothing was removed locally while the listing was read;
  execute_delta returns; what it removes, after the listing and with no further call to the
  client, are the paths of \<open>deleted_paths\<close>, each once: the keys of \<^verbatim>\<open>remote_files\<close> as
  the run found it that were not seen and are keys of \<^verbatim>\<open>local_files\<close>; these paths end
  in neither map; and a path that was neither seen nor a key of \<^verbatim>\<open>remote_files\<close> is not
  removed and keeps its entries.
\<close>

theorem execute_delta_deletes_after_listing:
  "(\<forall>e w1 s1. list_all_pages w s = (Inl e, w1, s1) \<longrightarrow>
       execute_delta w s = (Inl e, w1, s1) \<and>
       removals (trace w1) = removals (trace w) \<and>
       (\<forall>p. has_key (local_files s) p \<longrightarrow> has_key (local_files s1) p) \<and>
       (\<forall>p. has_key (remote_files s) p \<longrightarrow> has_key (remote_files s1) p)) \<and>
   (\<forall>seen w1 s1. list_all_pages w s = (Inr seen, w1, s1) \<longrightarrow>
     seen = file_paths (listing w) \<and>
     removals (trace w1) = removals (trace w) \<and>
     outcome (execute_delta w s) = Inr () \<and>
     removals (trace (world_after (execute_delta w s))) =
       removals (trace w1) @ deleted_paths seen s1 \<and>
     dbx_calls (trace (world_after (execute_delta w s))) = dbx_calls (trace w1) \<and>
     set (deleted_paths seen s1) =
       {p. has_key (remote_files s) p \<and> p \<notin> seen \<and> has_key (local_files s) p} \<and>
     (\<forall>p. p \<in> set (deleted_paths seen s1) \<longrightarrow>
          \<not> has_key (local_files (state_after (execute_delta w s))) p \<and>
          \<not> has_key (remote_files (state_after (execute_delta w s))) p) \<and>
     (\<forall>p. p \<notin> seen \<and> \<not> has_key (remote_files s) p \<longrightarrow>
          p \<notin> set (deleted_paths seen s1) \<and>
          map_of (local_files (state_after (execute_delta w s))) p = map_of (local_files s) p \<and>
          map_of (remote_files (state_after (execute_delta w s))) p = map_of (remote_files s) p))"
proof (intro conjI allI impI)
  fix e w1 s1
  assume f: "list_all_pages w s = (Inl e, w1, s1)"
  then show "execute_delta w s = (Inl e, w1, s1)"
    by (simp add: execute_delta_def)
  from list_all_pages_keeps [OF f] show "removals (trace w1) = removals (trace w)"
    by simp
  fix p
  {
    assume "has_key (local_files s) p"
    with list_all_pages_keeps [OF f] show "has_key (local_files s1) p" by simp
  }
  {
    assume "has_key (remote_files s) p"
    with list_all_pages_keeps [OF f] show "has_key (remote_files s1) p" by simp
  }
next
  fix seen w1 s1
  assume ok: "list_all_pages w s = (Inr seen, w1, s1)"
  note l = list_all_pages_ok [OF ok]
  have ex: "execute_delta w s = delete_unlisted (dict_keys (remote_files s1)) seen w1 s1"
    using ok by (simp add: execute_delta_def)
  have pre: "distinct (dict_keys (remote_files s1))"
    "\<forall>k \<in> set (dict_keys (remote_files s1)). has_key (remote_files s1) k"
    by (simp_all add: has_key_keys) (simp add: dict_keys_def)
  have in_D: "(p \<in> set (dict_keys (remote_files s1)) \<and> p \<notin> seen \<and> has_key (local_files s1) p) =
      (p \<in> set (deleted_paths seen s1))" for p
    by (auto simp: deleted_paths_def)
  note d = delete_unlisted_ok [OF pre, of seen w1, folded deleted_paths_def ex, unfolded in_D]
  have keys: "has_key (remote_files s1) p = has_key (remote_files s) p"
    "has_key (local_files s1) p = has_key (local_files s) p" if "p \<notin> seen" for p
    using l that by (simp_all add: has_key_def)
  show D: "set (deleted_paths seen s1) =
       {p. has_key (remote_files s) p \<and> p \<notin> seen \<and> has_key (local_files s) p}"
    using keys by (auto simp: deleted_paths_def has_key_keys [symmetric])
  from l show "seen = file_paths (listing w)" "removals (trace w1) = removals (trace w)"
    by simp_all
  from d show "outcome (execute_delta w s) = Inr ()"
    "removals (trace (world_after (execute_delta w s))) = removals (trace w1) @ deleted_paths seen s1"
    "dbx_calls (trace (world_after (execute_delta w s))) = dbx_calls (trace w1)"
    by simp_all
  fix p
  {
    assume "p \<in> set (deleted_paths seen s1)"
    with d show "\<not> has_key (local_files (state_after (execute_delta w s))) p"
      "\<not> has_key (remote_files (state_after (execute_delta w s))) p"
      by (simp_all add: has_key_def)
  }
  {
    assume n: "p \<notin> seen \<and> \<not> has_key (remote_files s) p"
    then show nd: "p \<notin> set (deleted_paths seen s1)" by (simp add: D)
    with d l n show
      "map_of (local_files (state_after (execute_delta w s))) p = map_of (local_files s) p"
      "map_of (remote_files (state_after (execute_delta w s))) p = map_of (remote_files s) p"
      by simp_all
  }
qed

lemma list_ex_gone:
  "list_all_pages ex_gone ex_ag =
     (Inr {''a''}, ex_gone\<lparr>trace := [Dbx (Files_list_folder [] True)]\<rparr>, ex_ag)"
  by (simp add: model_defs ex_gone_def ex_ag_def)

lemma list_ex_blocked:
  "list_all_pages ex_blocked ex_g =
     (Inl (IOError EISDIR ''c''),
      ex_blocked\<lparr>fs := [([''g''], File 2 ''old''), ([''c''], Dir 1), ([''a''], File 5 ''abc'')],
                 clock := 6,
                 trace := [Dbx (Files_list_folder [] True),
                           Print [Str (CHR 0x09 # ''Downloading: ''), Str ''a'', Str ''-- Not Found Locally''],
                           Dbx (Files_download_to_file ''a'' ''/a''),
                           Dbx (Files_list_folder_continue [[FileMetadata ''/c'' ''r1'']]),
                           Print [Str (CHR 0x09 # ''Downloading: ''), Str ''c'', Str ''-- Not Found Locally''],
                           Dbx (Files_download_to_file ''c'' ''/c'')]\<rparr>,
      ex_g\<lparr>local_files := [(''g'', \<lparr>revision = ''r5'', modified = 2\<rparr>), (''a'', \<lparr>revision = ''r0'', modified = 5\<rparr>)],
           remote_files := [(''g'', \<lparr>revision = ''r5'', modified = 2\<rparr>), (''a'', \<lparr>revision = ''r0'', modified = 5\<rparr>)]\<rparr>)"
  by (simp add: model_defs ex_blocked_def ex_g_def)

theorem execute_delta_deletes_after_listing_witness:
  "outcome (list_all_pages ex_blocked ex_g) = Inl (IOError EISDIR ''c'') \<and>
   outcome (execute_delta ex_blocked ex_g) = Inl (IOError EISDIR ''c'') \<and>
   removals (trace (world_after (execute_delta ex_blocked ex_g))) = [] \<and>
   has_key (local_files (state_after (execute_delta ex_blocked ex_g))) ''g'' \<and>
   has_key (remote_files (state_after (execute_delta ex_blocked ex_g))) ''g'' \<and>
   list_all_pages ex_gone ex_ag =
     (Inr {''a''}, ex_gone\<lparr>trace := [Dbx (Files_list_folder [] True)]\<rparr>, ex_ag) \<and>
   outcome (execute_delta ex_gone ex_ag) = Inr () \<and>
   removals (trace (world_after (execute_delta ex_gone ex_ag))) = [''g''] \<and>
   dbx_calls (trace (world_after (execute_delta ex_gone ex_ag))) = [Files_list_folder [] True] \<and>
   \<not> has_key (local_files (state_after (execute_delta ex_gone ex_ag))) ''g'' \<and>
   \<not> has_key (remote_files (state_after (execute_delta ex_gone ex_ag))) ''g'' \<and>
   map_of (local_files (state_after (execute_delta ex_gone ex_ag))) ''n'' = None"
proof -
  have D: "deleted_paths {''a''} ex_ag = [''g'']"
    by (simp add: deleted_paths_def model_defs ex_ag_def)
  have n: "''n'' \<notin> {''a''} \<and> \<not> has_key (remote_files ex_ag) ''n''"
    "map_of (local_files ex_ag) ''n'' = None"
    by (simp_all add: has_key_def ex_ag_def)
  have g: "has_key (local_files ex_g) ''g''" "has_key (remote_files ex_g) ''g''"
    "removals (trace ex_blocked) = []"
    by (simp_all add: has_key_def ex_g_def ex_blocked_def)
  show ?thesis
    using execute_delta_deletes_after_listing [of ex_gone ex_ag]
      execute_delta_deletes_after_listing [of ex_blocked ex_g] n g
    by (simp add: D list_ex_gone list_ex_blocked)
qed

subsection \<open>The remote pass as a whole\<close>

lemma meta_eq: "(m = \<lparr>revision = r, modified = t\<rparr>) = (revision m = r \<and> modified m = t)"
  by (cases m) simp

lemma recorded_file [simp]:
  "recorded w s s' (FileMetadata pd r) =
     (if remote_decision s (FileMetadata pd r) = []
      then map_of (local_files s') (drop 1 pd) = map_of (local_files s) (drop 1 pd) \<and>
           map_of (remote_files s') (drop 1 pd) = map_of (remote_files s) (drop 1 pd)
      else (\<exists>r' c t. map_of (store w) (os_path_join ''/'' (drop 1 pd)) = Some (RFile r' c) \<and>
              map_of (local_files s') (drop 1 pd) = Some \<lparr>revision = r', modified = t\<rparr> \<and>
              map_of (remote_files s') (drop 1 pd) = Some \<lparr>revision = r', modified = t\<rparr>))"
  unfolding recorded.simps
  by (auto simp: meta_eq simp del: remote_decision.simps split: option.splits rnode.splits)

declare recorded.simps (1) [simp del]

lemma downloading_simps [simp]:
  "downloading [] = []"
  "downloading (e # evs) = download_line e @ downloading evs"
  "downloading (xs @ ys) = downloading xs @ downloading ys"
  by (simp_all add: downloading_def)

lemma transfers_simps [simp]:
  "transfers [] = []"
  "transfers (e # evs) = transfer e @ transfers evs"
  "transfers (xs @ ys) = transfers xs @ transfers ys"
  by (simp_all add: transfers_def)

lemma file_path_list_simps [simp]:
  "file_path_list [] = []"
  "file_path_list (FileMetadata pd r # es) = drop 1 pd # file_path_list es"
  "file_path_list (FolderMetadata pd # es) = file_path_list es"
  "file_path_list (xs @ ys) = file_path_list xs @ file_path_list ys"
  by (simp_all add: file_path_list_def)

lemma download_remote_effect:
  assumes "download_remote path because w s = (Inr u, w', s')"
  shows "\<exists>r c t. map_of (store w) (os_path_join ''/'' path) = Some (RFile r c) \<and>
           node_at w' path = Some (File t c) \<and>
           s' = s\<lparr>local_files := dict_set path \<lparr>revision = r, modified = t\<rparr> (local_files s),
                  remote_files := dict_set path \<lparr>revision = r, modified = t\<rparr> (remote_files s)\<rparr> \<and>
           dbx_calls (trace w') =
             dbx_calls (trace w) @ [Files_download_to_file path (os_path_join ''/'' path)] \<and>
           transfers (trace w') =
             transfers (trace w) @ [Files_download_to_file path (os_path_join ''/'' path)] \<and>
           downloading (trace w') =
             downloading (trace w) @ (case because of None \<Rightarrow> [] | Some b \<Rightarrow> [(path, b)]) \<and>
           store w' = store w"
proof -
  define w0 where "w0 = (case because of
                  None \<Rightarrow> py_print [Str (CHR 0x09 # ''Downloading: ''), Str path] w
                | Some b \<Rightarrow> py_print [Str (CHR 0x09 # ''Downloading: ''), Str path, Str b] w)"
  define hd where "hd = fst (os_path_split path)"
  define dest where "dest = os_path_join ''/'' path"
  have dr: "download_remote path because w s =
     (case (if \<not> os_path_exists hd w0 \<and> hd \<noteq> [] then os_makedirs hd w0 else (Inr (), w0)) of
           (Inl e, w1) \<Rightarrow> (Inl e, w1, s)
         | (Inr u, w1) \<Rightarrow>
             (case files_download_to_file path dest w1 of
                (Inl e, w2) \<Rightarrow> (Inl e, w2, s)
              | (Inr r, w2) \<Rightarrow>
                  (case os_path_getmtime path w2 of
                     Inl e \<Rightarrow> (Inl e, w2, s)
                   | Inr t \<Rightarrow>
                       (Inr (), w2,
                        s\<lparr>local_files := dict_set path \<lparr>revision = r, modified = t\<rparr> (local_files s),
                          remote_files := dict_set path \<lparr>revision = r, modified = t\<rparr> (remote_files s)\<rparr>))))"
    unfolding download_remote_def Let_def w0_def hd_def dest_def by (rule refl)
  have w0: "store w0 = store w" "dbx_calls (trace w0) = dbx_calls (trace w)"
    "transfers (trace w0) = transfers (trace w)"
    "downloading (trace w0) =
       downloading (trace w) @ (case because of None \<Rightarrow> [] | Some b \<Rightarrow> [(path, b)])"
    by (simp_all add: w0_def py_print_def emit_def split: option.splits)
  from assms obtain w1 r t where
    mk: "(if \<not> os_path_exists hd w0 \<and> hd \<noteq> [] then os_makedirs hd w0 else (Inr (), w0)) = (Inr (), w1)" and
    dl: "files_download_to_file path dest w1 = (Inr r, w')" and
    mt: "os_path_getmtime path w' = Inr t" and
    s': "s' = s\<lparr>local_files := dict_set path \<lparr>revision = r, modified = t\<rparr> (local_files s),
                  remote_files := dict_set path \<lparr>revision = r, modified = t\<rparr> (remote_files s)\<rparr>"
    unfolding dr by (fastforce split: sum.splits prod.splits)
  have w1: "store w1 = store w0" "dbx_calls (trace w1) = dbx_calls (trace w0)"
    "transfers (trace w1) = transfers (trace w0)" "downloading (trace w1) = downloading (trace w0)"
    using mk os_makedirs_frame [of hd w0 "Inr ()" w1] by (auto split: if_splits)
  define w2 where "w2 = emit (Dbx (Files_download_to_file path dest)) w1"
  from dl obtain c where st: "map_of (store w1) dest = Some (RFile r c)"
    and wr: "write_file path c w2 = (Inr (), w')"
    by (auto simp: files_download_to_file_def Let_def w2_def emit_def
             split: if_splits option.splits rnode.splits sum.splits prod.splits)
  have node: "node_at w' path = Some (File (clock w2) c)"
    using write_file_content [of path c w2] wr by simp
  with mt have t: "t = clock w2"
    by (simp add: os_path_getmtime_def)
  have tr: "trace w' = trace w1 @ [Dbx (Files_download_to_file path dest)]" "store w' = store w1"
    using write_file_frame [OF wr] by (simp_all add: w2_def emit_def)
  show ?thesis
    using st node s' tr w1 w0 unfolding t dest_def by simp
qed

lemma remote_decision_cases:
  "remote_decision s (FileMetadata pd r) = [] \<or>
   (\<exists>b. remote_decision s (FileMetadata pd r) = [(drop 1 pd, b)])"
  by (simp split: option.splits)

lemma process_remote_entry_file:
  assumes "process_remote_entry (FileMetadata pd r) seen w s = (Inr seen', w', s')"
  shows "seen' = insert (drop 1 pd) seen \<and>
         (if remote_decision s (FileMetadata pd r) = [] then w' = w \<and> s' = s
          else \<exists>b. remote_decision s (FileMetadata pd r) = [(drop 1 pd, b)] \<and>
                 download_remote (drop 1 pd) (Some b) w s = (Inr (), w', s'))"
  using assms by (auto split: option.splits sum.splits prod.splits if_splits)

lemma process_remote_entry_pass:
  assumes "process_remote_entry e seen w s = (Inr seen', w', s')"
  shows "downloading (trace w') = downloading (trace w) @ remote_decision s e \<and>
         transfers (trace w') =
           transfers (trace w) @
             map (\<lambda>(p, b). Files_download_to_file p (os_path_join ''/'' p)) (remote_decision s e) \<and>
         store w' = store w \<and>
         (\<forall>p. p \<notin> set (file_path_list [e]) \<longrightarrow>
              map_of (local_files s') p = map_of (local_files s) p \<and>
              map_of (remote_files s') p = map_of (remote_files s) p) \<and>
         recorded w s s' e"
proof (cases e)
  case (FileMetadata pd r)
  note f = process_remote_entry_file [OF assms [unfolded FileMetadata]]
  show ?thesis
  proof (cases "remote_decision s (FileMetadata pd r) = []")
    case True
    with f show ?thesis by (simp add: FileMetadata del: remote_decision.simps)
  next
    case False
    with f obtain b where b: "remote_decision s (FileMetadata pd r) = [(drop 1 pd, b)]"
      and d: "download_remote (drop 1 pd) (Some b) w s = (Inr (), w', s')"
      by auto
    from download_remote_effect [OF d] obtain r' c t where
      e: "map_of (store w) (os_path_join ''/'' (drop 1 pd)) = Some (RFile r' c)"
      "s' = s\<lparr>local_files := dict_set (drop 1 pd) \<lparr>revision = r', modified = t\<rparr> (local_files s),
              remote_files := dict_set (drop 1 pd) \<lparr>revision = r', modified = t\<rparr> (remote_files s)\<rparr>"
      "transfers (trace w') =
         transfers (trace w) @ [Files_download_to_file (drop 1 pd) (os_path_join ''/'' (drop 1 pd))]"
      "downloading (trace w') = downloading (trace w) @ [(drop 1 pd, b)]"
      "store w' = store w"
      by auto
    have rec: "recorded w s s' (FileMetadata pd r)"
      unfolding recorded_file using False e(1) by (simp add: e(2) dict_set_def update_conv')
    have fr: "map_of (local_files s') p = map_of (local_files s) p \<and>
              map_of (remote_files s') p = map_of (remote_files s) p" if "p \<noteq> drop 1 pd" for p
      using that by (simp add: e(2) dict_set_def update_conv')
    show ?thesis
      unfolding FileMetadata using rec fr e(3,4,5)
      by (simp add: b del: remote_decision.simps recorded.simps)
  qed
next
  case (FolderMetadata pd)
  then show ?thesis
    using assms
    by (auto simp: make_local_dir_def os_path_exists_def node_at_def
             split: if_splits sum.splits prod.splits dest!: os_makedirs_frame)
qed

lemma remote_decision_cong:
  "map_of (local_files s') (drop 1 (path_display e)) = map_of (local_files s) (drop 1 (path_display e))
   \<Longrightarrow> remote_decision s' e = remote_decision s e"
  by (cases e) simp_all

lemma remote_decision_frame:
  assumes "\<forall>p. p \<notin> A \<longrightarrow> map_of (local_files s') p = map_of (local_files s) p"
    and "set (file_path_list es) \<inter> A = {}"
  shows "concat (map (remote_decision s') es) = concat (map (remote_decision s) es)"
  using assms
proof (induction es)
  case Nil
  show ?case by simp
next
  case (Cons e es)
  then show ?case by (cases e) (auto simp: disjoint_iff)
qed

lemma file_path_list_to_entry:
  "set (file_path_list (map to_entry xs)) \<subseteq> drop 1 ` fst ` set xs"
proof (induction xs)
  case Nil
  show ?case by simp
next
  case (Cons x xs)
  obtain k n where x: "x = (k, n)" by (cases x)
  from Cons show ?case
    by (cases n) (auto simp: x)
qed

lemma distinct_file_path_list:
  assumes "distinct (map fst xs)" and "\<forall>k \<in> fst ` set xs. startswith k ''/''"
  shows "distinct (file_path_list (map to_entry xs))"
  using assms
proof (induction xs)
  case Nil
  show ?case by simp
next
  case (Cons x xs)
  obtain k n where x: "x = (k, n)" by (cases x)
  have new: "drop 1 k \<notin> set (file_path_list (map to_entry xs))"
  proof
    assume "drop 1 k \<in> set (file_path_list (map to_entry xs))"
    then obtain k' where k': "k' \<in> fst ` set xs" "drop 1 k = drop 1 k'"
      using file_path_list_to_entry [of xs] by blast
    moreover have "take 1 k = take 1 k'"
      using Cons.prems(2) k'(1) by (auto simp: x startswith_def)
    ultimately have "k = k'"
      by (metis append_take_drop_id)
    with k'(1) Cons.prems(1) show False
      by (auto simp: x)
  qed
  from Cons new show ?case
    by (cases n) (auto simp: x)
qed

lemma distinct_listing: "distinct (file_path_list (listing w))"
  unfolding listing_def
  by (rule distinct_file_path_list)
     (auto simp: distinct_map_filter distinct_clearjunk below_def)

lemma file_entry_path: "FileMetadata pd r \<in> set es \<Longrightarrow> drop 1 pd \<in> set (file_path_list es)"
  unfolding file_path_list_def by force

lemma recorded_before:
  assumes "recorded w1 s1 s' e" and "store w1 = store w"
    and "map_of (local_files s1) (drop 1 (path_display e)) = map_of (local_files s) (drop 1 (path_display e))"
    and "map_of (remote_files s1) (drop 1 (path_display e)) = map_of (remote_files s) (drop 1 (path_display e))"
  shows "recorded w s s' e"
proof (cases e)
  case (FileMetadata pd r)
  have "remote_decision s1 e = remote_decision s e"
    using assms(3) by (rule remote_decision_cong)
  with assms show ?thesis
    unfolding FileMetadata by (auto simp del: remote_decision.simps split: if_splits)
next
  case (FolderMetadata pd)
  then show ?thesis by simp
qed

lemma recorded_after:
  assumes "recorded w s s1 e"
    and "map_of (local_files s') (drop 1 (path_display e)) = map_of (local_files s1) (drop 1 (path_display e))"
    and "map_of (remote_files s') (drop 1 (path_display e)) = map_of (remote_files s1) (drop 1 (path_display e))"
  shows "recorded w s s' e"
  using assms by (cases e) (auto simp del: remote_decision.simps split: if_splits)

lemma process_remote_entries_pass:
  "process_remote_entries es seen w s = (Inr seen', w', s') \<Longrightarrow> distinct (file_path_list es) \<Longrightarrow>
     downloading (trace w') = downloading (trace w) @ concat (map (remote_decision s) es) \<and>
     transfers (trace w') =
       transfers (trace w) @
         map (\<lambda>(p, b). Files_download_to_file p (os_path_join ''/'' p))
           (concat (map (remote_decision s) es)) \<and>
     store w' = store w \<and>
     (\<forall>p. p \<notin> set (file_path_list es) \<longrightarrow>
          map_of (local_files s') p = map_of (local_files s) p \<and>
          map_of (remote_files s') p = map_of (remote_files s) p) \<and>
     (\<forall>e \<in> set es. recorded w s s' e)"
proof (induction es arbitrary: seen w s)
  case Nil
  then show ?case by simp
next
  case (Cons e es)
  then obtain seen1 w1 s1 where
    e: "process_remote_entry e seen w s = (Inr seen1, w1, s1)" and
    es: "process_remote_entries es seen1 w1 s1 = (Inr seen', w', s')"
    by (auto split: sum.splits prod.splits)
  from process_remote_entry_pass [OF e] have
    h1: "downloading (trace w1) = downloading (trace w) @ remote_decision s e" and
    h2: "transfers (trace w1) =
           transfers (trace w) @
             map (\<lambda>(p, b). Files_download_to_file p (os_path_join ''/'' p)) (remote_decision s e)" and
    h3: "store w1 = store w" and
    h4: "\<And>p. p \<notin> set (file_path_list [e]) \<Longrightarrow>
              map_of (local_files s1) p = map_of (local_files s) p \<and>
              map_of (remote_files s1) p = map_of (remote_files s) p" and
    h5: "recorded w s s1 e"
    by blast+
  have d: "distinct (file_path_list es)" "set (file_path_list es) \<inter> set (file_path_list [e]) = {}"
    using Cons.prems(2) by (cases e; auto)+
  from Cons.IH [OF es d(1)] have
    i1: "downloading (trace w') = downloading (trace w1) @ concat (map (remote_decision s1) es)" and
    i2: "transfers (trace w') =
           transfers (trace w1) @
             map (\<lambda>(p, b). Files_download_to_file p (os_path_join ''/'' p))
               (concat (map (remote_decision s1) es))" and
    i3: "store w' = store w1" and
    i4: "\<And>p. p \<notin> set (file_path_list es) \<Longrightarrow>
              map_of (local_files s') p = map_of (local_files s1) p \<and>
              map_of (remote_files s') p = map_of (remote_files s1) p" and
    i5: "\<And>e'. e' \<in> set es \<Longrightarrow> recorded w1 s1 s' e'"
    by blast+
  have same: "concat (map (remote_decision s1) es) = concat (map (remote_decision s) es)"
    using remote_decision_frame [OF _ d(2)] h4 by blast
  have c1: "downloading (trace w') = downloading (trace w) @ concat (map (remote_decision s) (e # es))"
    by (simp add: i1 h1 same)
  have c2: "transfers (trace w') =
       transfers (trace w) @
         map (\<lambda>(p, b). Files_download_to_file p (os_path_join ''/'' p))
           (concat (map (remote_decision s) (e # es)))"
    by (simp add: i2 h2 same)
  have c3: "store w' = store w"
    by (simp add: i3 h3)
  have c4: "map_of (local_files s') p = map_of (local_files s) p \<and>
            map_of (remote_files s') p = map_of (remote_files s) p"
    if "p \<notin> set (file_path_list (e # es))" for p
  proof -
    from that have "p \<notin> set (file_path_list es)" "p \<notin> set (file_path_list [e])"
      by (cases e; simp)+
    with i4 [of p] h4 [of p] show ?thesis by simp
  qed
  have c5: "recorded w s s' e'" if "e' \<in> set (e # es)" for e'
  proof (cases e')
    case (FolderMetadata pd)
    then show ?thesis by simp
  next
    case (FileMetadata pd r)
    show ?thesis
    proof (cases "e' \<in> set es")
      case True
      then have "drop 1 pd \<in> set (file_path_list es)"
        unfolding FileMetadata by (rule file_entry_path)
      with d(2) have "drop 1 pd \<notin> set (file_path_list [e])" by blast
      from h4 [OF this] i5 [OF True] h3 show ?thesis
        by (intro recorded_before [of w1 s1 s' e' w s]) (simp_all add: FileMetadata)
    next
      case False
      with that have e': "e' = e" by simp
      then have "e = FileMetadata pd r" using FileMetadata by simp
      with Cons.prems(2) have "drop 1 pd \<notin> set (file_path_list es)"
        by simp
      from i4 [OF this] h5 show ?thesis
        unfolding e' [symmetric]
        by (intro recorded_after [of w s s1 e' s']) (simp_all add: FileMetadata)
    qed
  qed
  from c1 c2 c3 c4 c5 show ?case by blast
qed

lemma list_loop_pass:
  "list_loop (first_page ps) seen w s = (Inr seen', w', s') \<Longrightarrow>
   distinct (file_path_list (concat ps)) \<Longrightarrow>
     downloading (trace w') = downloading (trace w) @ concat (map (remote_decision s) (concat ps)) \<and>
     transfers (trace w') =
       transfers (trace w) @
         map (\<lambda>(p, b). Files_download_to_file p (os_path_join ''/'' p))
           (concat (map (remote_decision s) (concat ps))) \<and>
     store w' = store w \<and>
     (\<forall>p. p \<notin> set (file_path_list (concat ps)) \<longrightarrow>
          map_of (local_files s') p = map_of (local_files s) p \<and>
          map_of (remote_files s') p = map_of (remote_files s) p) \<and>
     (\<forall>e \<in> set (concat ps). recorded w s s' e)"
proof (induction ps arbitrary: seen w s)
  case Nil
  then show ?case
    by (subst (asm) list_loop.simps) (simp add: first_page_def)
next
  case (Cons pg rest)
  from Cons.prems(1) obtain seen1 w1 s1 where
    pg: "process_remote_entries pg seen w s = (Inr seen1, w1, s1)"
    by (subst (asm) list_loop.simps) (auto simp: first_page_def split: sum.splits prod.splits)
  have d: "distinct (file_path_list pg)" "distinct (file_path_list (concat rest))"
    "set (file_path_list (concat rest)) \<inter> set (file_path_list pg) = {}"
    using Cons.prems(2) by auto
  from process_remote_entries_pass [OF pg d(1)] have
    h1: "downloading (trace w1) = downloading (trace w) @ concat (map (remote_decision s) pg)" and
    h2: "transfers (trace w1) =
           transfers (trace w) @
             map (\<lambda>(p, b). Files_download_to_file p (os_path_join ''/'' p))
               (concat (map (remote_decision s) pg))" and
    h3: "store w1 = store w" and
    h4: "\<And>p. p \<notin> set (file_path_list pg) \<Longrightarrow>
              map_of (local_files s1) p = map_of (local_files s) p \<and>
              map_of (remote_files s1) p = map_of (remote_files s) p" and
    h5: "\<And>e. e \<in> set pg \<Longrightarrow> recorded w s s1 e"
    by blast+
  show ?case
  proof (cases "rest = []")
    case True
    with Cons.prems(1) pg have "seen' = seen1 \<and> w' = w1 \<and> s' = s1"
      by (subst (asm) list_loop.simps) (simp add: first_page_def)
    with h1 h2 h3 h4 h5 True show ?thesis by simp
  next
    case False
    define w2 where "w2 = emit (Dbx (Files_list_folder_continue rest)) w1"
    from False Cons.prems(1) pg have
      rest: "list_loop (first_page rest) seen1 w2 s1 = (Inr seen', w', s')"
      unfolding w2_def
      by (subst (asm) list_loop.simps)
         (auto simp: first_page_def [of "pg # rest"] files_list_folder_continue_def Let_def
               split: if_splits)
    have w2: "downloading (trace w2) = downloading (trace w1)"
      "transfers (trace w2) = transfers (trace w1)" "store w2 = store w1"
      by (simp_all add: w2_def emit_def)
    from Cons.IH [OF rest d(2)] have
      i1: "downloading (trace w') =
             downloading (trace w2) @ concat (map (remote_decision s1) (concat rest))" and
      i2: "transfers (trace w') =
             transfers (trace w2) @
               map (\<lambda>(p, b). Files_download_to_file p (os_path_join ''/'' p))
                 (concat (map (remote_decision s1) (concat rest)))" and
      i3: "store w' = store w2" and
      i4: "\<And>p. p \<notin> set (file_path_list (concat rest)) \<Longrightarrow>
                map_of (local_files s') p = map_of (local_files s1) p \<and>
                map_of (remote_files s') p = map_of (remote_files s1) p" and
      i5: "\<And>e. e \<in> set (concat rest) \<Longrightarrow> recorded w2 s1 s' e"
      by blast+
    have same: "concat (map (remote_decision s1) (concat rest)) =
                concat (map (remote_decision s) (concat rest))"
      using remote_decision_frame [OF _ d(3)] h4 by blast
    have c1: "downloading (trace w') =
        downloading (trace w) @ concat (map (remote_decision s) (concat (pg # rest)))"
      by (simp add: i1 w2 h1 same)
    have c2: "transfers (trace w') =
       transfers (trace w) @
         map (\<lambda>(p, b). Files_download_to_file p (os_path_join ''/'' p))
           (concat (map (remote_decision s) (concat (pg # rest))))"
      by (simp add: i2 w2 h2 same)
    have c3: "store w' = store w"
      by (simp add: i3 w2 h3)
    have c4: "map_of (local_files s') p = map_of (local_files s) p \<and>
              map_of (remote_files s') p = map_of (remote_files s) p"
      if "p \<notin> set (file_path_list (concat (pg # rest)))" for p
    proof -
      from that have "p \<notin> set (file_path_list (concat rest))" "p \<notin> set (file_path_list pg)"
        by simp_all
      with i4 [of p] h4 [of p] show ?thesis by simp
    qed
    have c5: "recorded w s s' e" if "e \<in> set (concat (pg # rest))" for e
    proof (cases e)
      case (FolderMetadata pd)
      then show ?thesis by simp
    next
      case (FileMetadata pd r)
      show ?thesis
      proof (cases "e \<in> set (concat rest)")
        case True
        then have "drop 1 pd \<in> set (file_path_list (concat rest))"
          unfolding FileMetadata by (rule file_entry_path)
        with d(3) have "drop 1 pd \<notin> set (file_path_list pg)" by blast
        from h4 [OF this] i5 [OF True] h3 w2(3) show ?thesis
          by (intro recorded_before [of w2 s1 s' e w s]) (simp_all add: FileMetadata)
      next
        case False
        with that have in_pg: "e \<in> set pg" by simp
        then have "drop 1 pd \<in> set (file_path_list pg)"
          unfolding FileMetadata by (rule file_entry_path)
        with d(3) have "drop 1 pd \<notin> set (file_path_list (concat rest))" by blast
        from i4 [OF this] h5 [OF in_pg] show ?thesis
          by (intro recorded_after [of w s s1 e s']) (simp_all add: FileMetadata)
      qed
    qed
    from c1 c2 c3 c4 c5 show ?thesis by blast
  qed
qed

lemma list_all_pages_pass:
  assumes "list_all_pages w s = (Inr seen, w1, s1)"
  shows "downloading (trace w1) = downloading (trace w) @ concat (map (remote_decision s) (listing w)) \<and>
     transfers (trace w1) =
       transfers (trace w) @
         map (\<lambda>(p, b). Files_download_to_file p (os_path_join ''/'' p))
           (concat (map (remote_decision s) (listing w))) \<and>
     store w1 = store w \<and>
     (\<forall>e \<in> set (listing w). recorded w s s1 e)"
proof -
  define w0 where "w0 = emit (Dbx (Files_list_folder [] True)) w"
  have w0: "downloading (trace w0) = downloading (trace w)"
    "transfers (trace w0) = transfers (trace w)" "store w0 = store w"
    by (simp_all add: w0_def emit_def)
  from assms have
    "list_loop (first_page (pages (page_size w) (listing w))) {} w0 s = (Inr seen, w1, s1)"
    unfolding w0_def
    by (auto simp: list_all_pages_def files_list_folder_def Let_def emit_def listing_def
             split: if_splits)
  from list_loop_pass [OF this] distinct_listing [of w] have
    "downloading (trace w1) = downloading (trace w0) @ concat (map (remote_decision s) (listing w))"
    "transfers (trace w1) =
       transfers (trace w0) @
         map (\<lambda>(p, b). Files_download_to_file p (os_path_join ''/'' p))
           (concat (map (remote_decision s) (listing w)))"
    "store w1 = store w0"
    "\<forall>e \<in> set (listing w). recorded w0 s s1 e"
    by (simp_all add: concat_pages)
  moreover have "recorded w s s1 e" if "recorded w0 s s1 e" for e
    using that w0(3) by (intro recorded_before [of w0 s s1 e w s]) simp_all
  ultimately show ?thesis
    using w0 by simp
qed

lemma delete_unlisted_traces:
  "delete_unlisted ks seen w s = (r, w', s') \<Longrightarrow>
     downloading (trace w') = downloading (trace w) \<and> transfers (trace w') = transfers (trace w)"
proof (induction ks arbitrary: w s)
  case Nil
  then show ?case by simp
next
  case (Cons k ks)
  show ?case
  proof (cases "k \<notin> seen \<and> has_key (local_files s) k")
    case False
    with Cons.prems have "delete_unlisted ks seen w s = (r, w', s')"
      by (auto split: if_splits)
    from Cons.IH [OF this] show ?thesis .
  next
    case True
    obtain r1 w1 s1 where dl: "delete_local k w s = (r1, w1, s1)"
      by (cases "delete_local k w s") auto
    then have w1: "downloading (trace w1) = downloading (trace w)"
      "transfers (trace w1) = transfers (trace w)"
      by (auto simp: delete_local_def delete_maps_cases split: if_splits)
    show ?thesis
    proof (cases r1)
      case (Inl x)
      with Cons.prems True dl have "w' = w1" by simp
      with w1 show ?thesis by simp
    next
      case (Inr u)
      with Cons.prems True dl have "delete_unlisted ks seen w1 s1 = (r, w', s')" by simp
      from Cons.IH [OF this] w1 show ?thesis by simp
    qed
  qed
qed

lemma file_paths_list: "file_paths es = set (file_path_list es)"
  by (simp add: file_paths_def file_path_list_def)

text \<open>
  C1. Let execute_delta return. Apart from the calls that read the listing, the calls it
  made to the client are the downloads of the claim's table and nothing else: one
  \<^verbatim>\<open>files_download_to_file(path, os.path.join('/', path))\<close> for every file entry whose path
  is not a key of \<^verbatim>\<open>local_files\<close> or whose revision differs from the recorded one, in the
  order of the listing, each entry decided against the state the pass started with; the
  lines printed give the reason of each. For an entry with the recorded revision, whatever
  the recorded time and the time on disk are, nothing is transferred and both maps keep
  their records; for a downloaded entry both maps end with the same record, whose revision
  is the one under which the app folder holds the file.

  The second half is one turn of the loop on a file entry, from whatever world and state
  the loop reaches it with. Where the table says nothing, the turn changes nothing. Where
  it says download, the turn makes that one call to the client; afterwards the local
  file at the path holds the content that the app folder has for it, and both maps record
  the revision of that file and the modification time of the local file.
\<close>

theorem remote_pass_downloads:
  "(execute_delta w s = (Inr (), w', s') \<longrightarrow>
      transfers (trace w') =
        transfers (trace w) @
          map (\<lambda>(p, b). Files_download_to_file p (os_path_join ''/'' p))
            (concat (map (remote_decision s) (listing w))) \<and>
      downloading (trace w') =
        downloading (trace w) @ concat (map (remote_decision s) (listing w)) \<and>
      (\<forall>pd r. FileMetadata pd r \<in> set (listing w) \<longrightarrow>
         (if remote_decision s (FileMetadata pd r) = []
          then map_of (local_files s') (drop 1 pd) = map_of (local_files s) (drop 1 pd) \<and>
               map_of (remote_files s') (drop 1 pd) = map_of (remote_files s) (drop 1 pd)
          else (\<exists>r' c t. map_of (store w) (os_path_join ''/'' (drop 1 pd)) = Some (RFile r' c) \<and>
                  map_of (local_files s') (drop 1 pd) = Some \<lparr>revision = r', modified = t\<rparr> \<and>
                  map_of (remote_files s') (drop 1 pd) = Some \<lparr>revision = r', modified = t\<rparr>)))) \<and>
   (process_remote_entry (FileMetadata pd0 r0) seen w0 s0 = (Inr seen1, w1, s1) \<longrightarrow>
      seen1 = insert (drop 1 pd0) seen \<and>
      (if remote_decision s0 (FileMetadata pd0 r0) = [] then w1 = w0 \<and> s1 = s0
       else (\<exists>r' c t. map_of (store w0) (os_path_join ''/'' (drop 1 pd0)) = Some (RFile r' c) \<and>
               dbx_calls (trace w1) =
                 dbx_calls (trace w0) @
                   [Files_download_to_file (drop 1 pd0) (os_path_join ''/'' (drop 1 pd0))] \<and>
               node_at w1 (drop 1 pd0) = Some (File t c) \<and>
               s1 = s0\<lparr>local_files :=
                          dict_set (drop 1 pd0) \<lparr>revision = r', modified = t\<rparr> (local_files s0),
                        remote_files :=
                          dict_set (drop 1 pd0) \<lparr>revision = r', modified = t\<rparr> (remote_files s0)\<rparr>)))"
proof (intro conjI impI)
  assume run: "execute_delta w s = (Inr (), w', s')"
  then obtain seen wl sl where
    l: "list_all_pages w s = (Inr seen, wl, sl)" and
    d: "delete_unlisted (dict_keys (remote_files sl)) seen wl sl = (Inr (), w', s')"
    by (auto simp: execute_delta_def split: sum.splits prod.splits)
  note p = list_all_pages_pass [OF l]
  note t = delete_unlisted_traces [OF d]
  from p t show "transfers (trace w') =
        transfers (trace w) @
          map (\<lambda>(p, b). Files_download_to_file p (os_path_join ''/'' p))
            (concat (map (remote_decision s) (listing w)))"
    by simp
  from p t show "downloading (trace w') =
        downloading (trace w) @ concat (map (remote_decision s) (listing w))"
    by simp
  have seen: "seen = set (file_path_list (listing w))"
    using list_all_pages_ok [OF l] by (simp add: file_paths_list)
  have pre: "distinct (dict_keys (remote_files sl))"
    "\<forall>k \<in> set (dict_keys (remote_files sl)). has_key (remote_files sl) k"
    by (simp_all add: has_key_keys) (simp add: dict_keys_def)
  have kept: "map_of (local_files s') q = map_of (local_files sl) q \<and>
              map_of (remote_files s') q = map_of (remote_files sl) q" if "q \<in> seen" for q
    using delete_unlisted_ok [OF pre, of seen wl] that by (simp add: d)
  show "\<forall>pd r. FileMetadata pd r \<in> set (listing w) \<longrightarrow>
         (if remote_decision s (FileMetadata pd r) = []
          then map_of (local_files s') (drop 1 pd) = map_of (local_files s) (drop 1 pd) \<and>
               map_of (remote_files s') (drop 1 pd) = map_of (remote_files s) (drop 1 pd)
          else (\<exists>r' c t. map_of (store w) (os_path_join ''/'' (drop 1 pd)) = Some (RFile r' c) \<and>
                  map_of (local_files s') (drop 1 pd) = Some \<lparr>revision = r', modified = t\<rparr> \<and>
                  map_of (remote_files s') (drop 1 pd) = Some \<lparr>revision = r', modified = t\<rparr>))"
  proof (intro allI impI)
    fix pd r
    assume e: "FileMetadata pd r \<in> set (listing w)"
    then have "drop 1 pd \<in> seen"
      unfolding seen by (rule file_entry_path)
    note k = kept [OF this]
    from p e have r1: "recorded w s sl (FileMetadata pd r)" by blast
    have "recorded w s s' (FileMetadata pd r)"
      using k by (intro recorded_after [OF r1]) simp_all
    then show "if remote_decision s (FileMetadata pd r) = []
          then map_of (local_files s') (drop 1 pd) = map_of (local_files s) (drop 1 pd) \<and>
               map_of (remote_files s') (drop 1 pd) = map_of (remote_files s) (drop 1 pd)
          else (\<exists>r' c t. map_of (store w) (os_path_join ''/'' (drop 1 pd)) = Some (RFile r' c) \<and>
                  map_of (local_files s') (drop 1 pd) = Some \<lparr>revision = r', modified = t\<rparr> \<and>
                  map_of (remote_files s') (drop 1 pd) = Some \<lparr>revision = r', modified = t\<rparr>)"
      unfolding recorded_file .
  qed
next
  assume e: "process_remote_entry (FileMetadata pd0 r0) seen w0 s0 = (Inr seen1, w1, s1)"
  note f = process_remote_entry_file [OF e]
  from f show "seen1 = insert (drop 1 pd0) seen" by simp
  show "if remote_decision s0 (FileMetadata pd0 r0) = [] then w1 = w0 \<and> s1 = s0
       else (\<exists>r' c t. map_of (store w0) (os_path_join ''/'' (drop 1 pd0)) = Some (RFile r' c) \<and>
               dbx_calls (trace w1) =
                 dbx_calls (trace w0) @
                   [Files_download_to_file (drop 1 pd0) (os_path_join ''/'' (drop 1 pd0))] \<and>
               node_at w1 (drop 1 pd0) = Some (File t c) \<and>
               s1 = s0\<lparr>local_files :=
                          dict_set (drop 1 pd0) \<lparr>revision = r', modified = t\<rparr> (local_files s0),
                        remote_files :=
                          dict_set (drop 1 pd0) \<lparr>revision = r', modified = t\<rparr> (remote_files s0)\<rparr>)"
  proof (cases "remote_decision s0 (FileMetadata pd0 r0) = []")
    case True
    with f show ?thesis by (simp del: remote_decision.simps)
  next
    case False
    with f obtain b where "download_remote (drop 1 pd0) (Some b) w0 s0 = (Inr (), w1, s1)"
      by (auto simp del: remote_decision.simps)
    from download_remote_effect [OF this] False show ?thesis
      by (simp del: remote_decision.simps) blast
  qed
qed

lemma listing_ex_three:
  "listing ex_three =
     [FileMetadata ''/a'' ''r0'', FileMetadata ''/b'' ''r7'', FileMetadata ''/c'' ''r3'']"
  by (simp add: listing_def ex_three_def below_def startswith_def clearjunk.simps)

lemma run_ex_three: "outcome (execute_delta ex_three ex_ab) = Inr ()"
  by (simp add: model_defs ex_three_def ex_ab_def)

lemma step_ex_three:
  "outcome (process_remote_entry (FileMetadata ''/c'' ''r3'') {} ex_three ex_ab) = Inr {''c''}"
  by (simp add: model_defs ex_three_def ex_ab_def)

theorem remote_pass_downloads_witness:
  "outcome (execute_delta ex_three ex_ab) = Inr () \<and>
   transfers (trace (world_after (execute_delta ex_three ex_ab))) =
     [Files_download_to_file ''b'' ''/b'', Files_download_to_file ''c'' ''/c''] \<and>
   downloading (trace (world_after (execute_delta ex_three ex_ab))) =
     [(''b'', ''-- Remote File Changed''), (''c'', ''-- Not Found Locally'')] \<and>
   map_of (local_files (state_after (execute_delta ex_three ex_ab))) ''a'' =
     Some \<lparr>revision = ''r0'', modified = 0\<rparr> \<and>
   (\<exists>t. map_of (local_files (state_after (execute_delta ex_three ex_ab))) ''b'' =
          Some \<lparr>revision = ''r7'', modified = t\<rparr> \<and>
        map_of (remote_files (state_after (execute_delta ex_three ex_ab))) ''b'' =
          Some \<lparr>revision = ''r7'', modified = t\<rparr>) \<and>
   (\<exists>t. map_of (local_files (state_after (execute_delta ex_three ex_ab))) ''c'' =
          Some \<lparr>revision = ''r3'', modified = t\<rparr> \<and>
        map_of (remote_files (state_after (execute_delta ex_three ex_ab))) ''c'' =
          Some \<lparr>revision = ''r3'', modified = t\<rparr>) \<and>
   (\<exists>t. node_at (world_after (process_remote_entry (FileMetadata ''/c'' ''r3'') {} ex_three ex_ab))
          ''c'' = Some (File t ''ccc''))"
proof -
  have run: "execute_delta ex_three ex_ab =
      (Inr (), world_after (execute_delta ex_three ex_ab), state_after (execute_delta ex_three ex_ab))"
    using run_ex_three by (cases "execute_delta ex_three ex_ab") simp
  have step: "process_remote_entry (FileMetadata ''/c'' ''r3'') {} ex_three ex_ab =
      (Inr {''c''}, world_after (process_remote_entry (FileMetadata ''/c'' ''r3'') {} ex_three ex_ab),
       state_after (process_remote_entry (FileMetadata ''/c'' ''r3'') {} ex_three ex_ab))"
    using step_ex_three
    by (cases "process_remote_entry (FileMetadata ''/c'' ''r3'') {} ex_three ex_ab") simp
  have dec: "remote_decision ex_ab (FileMetadata ''/a'' ''r0'') = []"
    "remote_decision ex_ab (FileMetadata ''/b'' ''r7'') = [(''b'', ''-- Remote File Changed'')]"
    "remote_decision ex_ab (FileMetadata ''/c'' ''r3'') = [(''c'', ''-- Not Found Locally'')]"
    by (simp_all add: ex_ab_def)
  have st: "map_of (store ex_three) ''/b'' = Some (RFile ''r7'' ''new'')"
    "map_of (store ex_three) ''/c'' = Some (RFile ''r3'' ''ccc'')"
    "trace ex_three = []"
    "map_of (local_files ex_ab) ''a'' = Some \<lparr>revision = ''r0'', modified = 0\<rparr>"
    by (simp_all add: ex_three_def ex_ab_def os_path_join_def startswith_def endswith_def)
  note T = remote_pass_downloads [of ex_three ex_ab "world_after (execute_delta ex_three ex_ab)"
      "state_after (execute_delta ex_three ex_ab)" "''/c''" "''r3''" "{}" ex_three ex_ab "{''c''}"
      "world_after (process_remote_entry (FileMetadata ''/c'' ''r3'') {} ex_three ex_ab)"
      "state_after (process_remote_entry (FileMetadata ''/c'' ''r3'') {} ex_three ex_ab)",
      unfolded listing_ex_three]
  have j: "os_path_join ''/'' ''b'' = ''/b''" "os_path_join ''/'' ''c'' = ''/c''"
    by (simp_all add: os_path_join_def startswith_def endswith_def)
  from T run step show ?thesis
    by (auto simp: dec st j run_ex_three simp del: remote_decision.simps process_remote_entry.simps)
qed

subsection \<open>The local pass as a whole\<close>

lemma check_states_append:
  "check_states (xs @ ys) w s = and_then (check_states xs w s) (\<lambda>u. check_states ys)"
  by (induction xs arbitrary: w s) (auto simp: and_then_def split: sum.splits prod.splits)

lemma uploading_simps [simp]:
  "uploading [] = []"
  "uploading (e # evs) = upload_line e @ uploading evs"
  "uploading (xs @ ys) = uploading xs @ uploading ys"
  by (simp_all add: uploading_def)

lemma uploaded_to_simps [simp]:
  "uploaded_to [] = []"
  "uploaded_to (e # evs) = sent_to e @ uploaded_to evs"
  "uploaded_to (xs @ ys) = uploaded_to xs @ uploaded_to ys"
  by (simp_all add: uploaded_to_def)

lemma files_upload_session_start_frame:
  "files_upload_session_start f close w = (r, w') \<Longrightarrow>
     fs w' = fs w \<and> trace w' = trace w @ [Dbx (Files_upload_session_start f close)]"
  by (auto simp: files_upload_session_start_def emit_def Let_def split: if_splits)

lemma files_upload_session_append_v2_frame:
  "files_upload_session_append_v2 f c close w = (r, w') \<Longrightarrow>
     fs w' = fs w \<and> trace w' = trace w @ [Dbx (Files_upload_session_append_v2 f c close)]"
  by (auto simp: files_upload_session_append_v2_def emit_def Let_def
           split: if_splits sum.splits prod.splits)

lemma commit_frame: "commit f p mode w = (r, w') \<Longrightarrow> fs w' = fs w \<and> trace w' = trace w"
  by (auto simp: commit_def split: if_splits)

lemma files_upload_session_finish_frame:
  "files_upload_session_finish f c info w = (r, w') \<Longrightarrow>
     fs w' = fs w \<and> trace w' = trace w @ [Dbx (Files_upload_session_finish f c info)]"
  by (auto simp: files_upload_session_finish_def emit_def Let_def
           split: if_splits sum.splits prod.splits commit_info.splits dest!: commit_frame)

lemma files_upload_frame:
  "files_upload f p mode mute w = (r, w') \<Longrightarrow>
     fs w' = fs w \<and> trace w' = trace w @ [Dbx (Files_upload f p mode mute)]"
  by (auto simp: files_upload_def emit_def Let_def split: if_splits dest!: commit_frame)

lemma upload_loop_frame:
  "upload_loop data rest sid session_cursor off w = (r, w') \<Longrightarrow>
     fs w' = fs w \<and> uploading (trace w') = uploading (trace w) \<and>
     uploaded_to (trace w') = uploaded_to (trace w)"
proof (induction data rest sid session_cursor off w rule: upload_loop.induct)
  case (1 data rest sid session_cursor off w)
  show ?case
  proof (cases "length data < 10000000")
    case True
    with "1.prems" show ?thesis
      by (subst (asm) upload_loop.simps) simp
  next
    case False
    show ?thesis
    proof (cases sid)
      case None
      show ?thesis
      proof (cases "files_upload_session_start data False w")
        case (Pair r1 w1)
        note fr = files_upload_session_start_frame [OF Pair]
        show ?thesis
        proof (cases r1)
          case (Inl e)
          with "1.prems" False None Pair fr show ?thesis
            by (subst (asm) upload_loop.simps) auto
        next
          case (Inr i)
          from "1.prems" False None Pair Inr have
            "upload_loop (take 10000000 rest) (drop 10000000 rest) (Some i)
               (Some (UploadSessionCursor i (off + length data))) (off + length data)
               (if session_cursor = None then py_print [Str (CHR 0x09 # ''.'')] w1
                else if (off + length data) mod 100000000 = 0
                  then py_print [Str [CHR 0x09]] (py_print [Str ''.: '', Num (off + length data)] w1)
                else py_print [Str ''.''] w1) = (r, w')"
            by (subst (asm) upload_loop.simps) (simp add: Let_def)
          from "1.IH" [OF refl False _ _ this] None Pair Inr False fr show ?thesis
            by (auto split: if_splits)
        qed
      qed
    next
      case (Some j)
      show ?thesis
      proof (cases "files_upload_session_append_v2 data session_cursor False w")
        case (Pair r1 w1)
        note fr = files_upload_session_append_v2_frame [OF Pair]
        show ?thesis
        proof (cases r1)
          case (Inl e)
          with "1.prems" False Some Pair fr show ?thesis
            by (subst (asm) upload_loop.simps) auto
        next
          case (Inr u)
          from "1.prems" False Some Pair Inr have
            "upload_loop (take 10000000 rest) (drop 10000000 rest) (Some j)
               (Some (UploadSessionCursor j (off + length data))) (off + length data)
               (if session_cursor = None then py_print [Str (CHR 0x09 # ''.'')] w1
                else if (off + length data) mod 100000000 = 0
                  then py_print [Str [CHR 0x09]] (py_print [Str ''.: '', Num (off + length data)] w1)
                else py_print [Str ''.''] w1) = (r, w')"
            by (subst (asm) upload_loop.simps) (simp add: Let_def)
          from "1.IH" [OF refl False _ _ this] Some Pair Inr False fr show ?thesis
            by (auto split: if_splits)
        qed
      qed
    qed
  qed
qed

lemma upload_session_frame:
  assumes "upload_session path w = (Inr r, w')"
  shows "fs w' = fs w \<and> uploading (trace w') = uploading (trace w) \<and>
         uploaded_to (trace w') = uploaded_to (trace w) @ [os_path_join ''/'' path]"
  using assms unfolding upload_session_def
  by (auto split: sum.splits prod.splits
           dest!: upload_loop_frame files_upload_session_finish_frame)

lemma upload_whole_frame:
  assumes "upload_whole path w = (Inr r, w')"
  shows "fs w' = fs w \<and> uploading (trace w') = uploading (trace w) \<and>
         uploaded_to (trace w') = uploaded_to (trace w) @ [os_path_join ''/'' path]"
  using assms unfolding upload_whole_def
  by (auto split: sum.splits dest!: files_upload_frame)

lemma os_path_getmtime_fs: "fs w' = fs w \<Longrightarrow> os_path_getmtime p w' = os_path_getmtime p w"
  by (simp add: os_path_getmtime_def node_at_def)

lemma local_decision_cong:
  assumes "fs w' = fs w" "map_of (local_files s') q = map_of (local_files s) q"
    "map_of (remote_files s') q = map_of (remote_files s) q"
  shows "local_decision w' s' q = local_decision w s q"
proof -
  have k: "has_key (remote_files s') q = has_key (remote_files s) q"
    using assms(3) by (simp add: has_key_def map_of_eq_None_iff [symmetric] del: map_of_eq_None_iff)
  show ?thesis
    unfolding local_decision_def k assms(2) os_path_getmtime_fs [OF assms(1)] by (rule refl)
qed

lemma upload_session_offline:
  assumes rd: "read_file path w = Inr c" and long: "10000000 \<le> length c" and off: "\<not> online w"
  shows "fst (upload_session path w) = Inl ConnectionError"
  using long off
  by (simp add: upload_session_def rd)
     (subst upload_loop.simps, simp add: Let_def files_upload_session_start_def emit_def min_absorb2)

lemma upload_session_commit:
  assumes rd: "read_file path w = Inr c" and long: "10000000 \<le> length c" and on: "online w"
  shows "\<exists>w2. store w2 = store w \<and>
           upload_session path w =
             (case commit c (os_path_join ''/'' path) WriteMode_overwrite w2 of
                (Inl e, w3) \<Rightarrow> (Inl e, w3)
              | (Inr r, w3) \<Rightarrow> (Inr r, py_print [Str ''.''] w3))"
proof -
  define sid where "sid = new_session (length (sessions w))"
  define k where "k = (length c - 10000000) div 10000000"
  define w1 where "w1 = py_print [Str (CHR 0x09 # ''.'')]
     ((emit (Dbx (Files_upload_session_start (take 10000000 c) False)) w)
        \<lparr>sessions := AList.update sid (take 10000000 c) (sessions w)\<rparr>)"
  have w1: "online w1" "map_of (sessions w1) sid = Some (take 10000000 c)" "store w1 = store w"
    using on by (simp_all add: w1_def emit_def update_conv')
  have first: "upload_loop (take 10000000 c) (drop 10000000 c) None None 0 w =
      upload_loop (take 10000000 (drop 10000000 c)) (drop 20000000 c) (Some sid)
        (Some (UploadSessionCursor sid 10000000)) 10000000 w1"
    using long on
    by (subst upload_loop.simps)
       (simp add: Let_def files_upload_session_start_def min_absorb2 w1_def sid_def emit_def ac_simps)
  obtain w2 where loop:
    "upload_loop (take 10000000 (drop 10000000 c)) (drop 20000000 c) (Some sid)
        (Some (UploadSessionCursor sid 10000000)) 10000000 w1 =
       (Inr (drop (10000000 + k * 10000000) c,
             Some (UploadSessionCursor sid (10000000 + k * 10000000))), w2)"
    "map_of (sessions w2) sid = Some (take (10000000 + k * 10000000) c)"
    "online w2" "store w2 = store w1"
    using upload_loop_appends [OF k_def [symmetric] long w1(1) w1(2)] by auto
  have K: "length c div 10000000 = Suc k"
    using long by (simp add: k_def le_div_geq)
  have le: "10000000 + k * 10000000 \<le> length c"
  proof -
    have "length c div 10000000 * 10000000 \<le> length c" by simp
    then show ?thesis by (simp add: K)
  qed
  define w3 where "w3 =
     (emit (Dbx (Files_upload_session_finish (drop (10000000 + k * 10000000) c)
        (Some (UploadSessionCursor sid (10000000 + k * 10000000)))
        (CommitInfo (os_path_join ''/'' path) WriteMode_overwrite True))) w2)
       \<lparr>sessions := AList.delete sid (sessions w2)\<rparr>"
  have fin: "files_upload_session_finish (drop (10000000 + k * 10000000) c)
        (Some (UploadSessionCursor sid (10000000 + k * 10000000)))
        (CommitInfo (os_path_join ''/'' path) WriteMode_overwrite True) w2 =
      commit c (os_path_join ''/'' path) WriteMode_overwrite w3"
    using loop(2,3) le
    by (simp add: files_upload_session_finish_def session_at_def emit_def Let_def w3_def)
  have "store w3 = store w"
    by (simp add: w3_def emit_def loop(4) w1(3))
  moreover have "upload_session path w =
             (case commit c (os_path_join ''/'' path) WriteMode_overwrite w3 of
                (Inl e, w3) \<Rightarrow> (Inl e, w3)
              | (Inr r, w3) \<Rightarrow> (Inr r, py_print [Str ''.''] w3))"
    by (simp add: upload_session_def rd first loop(1) fin)
  ultimately show ?thesis by blast
qed

lemma commit_store:
  "commit c p mode w = (Inr r, w') \<Longrightarrow> map_of (store w') p = Some (RFile r c)"
  by (auto simp: commit_def update_conv' split: if_splits)

lemma upload_session_store:
  assumes up: "upload_session path w = (Inr r, w')"
    and rd: "read_file path w = Inr c" and long: "10000000 \<le> length c"
  shows "map_of (store w') (os_path_join ''/'' path) = Some (RFile r c)"
proof -
  have on: "online w"
    using upload_session_offline [OF rd long] up by auto
  from upload_session_commit [OF rd long on] obtain w2 where
    "upload_session path w =
             (case commit c (os_path_join ''/'' path) WriteMode_overwrite w2 of
                (Inl e, w3) \<Rightarrow> (Inl e, w3)
              | (Inr r, w3) \<Rightarrow> (Inr r, py_print [Str ''.''] w3))"
    by blast
  with up obtain w3 where "commit c (os_path_join ''/'' path) WriteMode_overwrite w2 = (Inr r, w3)"
    and "w' = py_print [Str ''.''] w3"
    by (auto split: sum.splits prod.splits)
  with commit_store [of c "os_path_join ''/'' path" WriteMode_overwrite w2 r w3] show ?thesis
    by (simp add: py_print_def emit_def)
qed

lemma upload_whole_store:
  assumes up: "upload_whole path w = (Inr r, w')" and rd: "read_file path w = Inr c"
  shows "map_of (store w') (os_path_join ''/'' path) = Some (RFile r c)"
  using up rd
  by (auto simp: upload_whole_def files_upload_def Let_def split: if_splits dest!: commit_store)

lemma upload_effect:
  assumes "upload path (Some b) w s = (Inr u, w', s')"
  shows "\<exists>r c t. node_at w path = Some (File t c) \<and> fs w' = fs w \<and>
           uploading (trace w') = uploading (trace w) @ [(path, b)] \<and>
           uploaded_to (trace w') = uploaded_to (trace w) @ [os_path_join ''/'' path] \<and>
           map_of (store w') (os_path_join ''/'' path) = Some (RFile r c) \<and>
           s' = s\<lparr>local_files := dict_set path \<lparr>revision = r, modified = t\<rparr> (local_files s),
                  remote_files := dict_set path \<lparr>revision = r, modified = t\<rparr> (remote_files s)\<rparr>"
proof -
  define w0 where "w0 = py_print [Str (CHR 0x09 # ''Uploading: ''), Str path, Str b] w"
  have up: "upload path (Some b) w s =
     (case os_path_getsize path w0 of
        Inl e \<Rightarrow> (Inl e, w0, s)
      | Inr sz \<Rightarrow>
          (case (if sz > 140000000 then upload_session path w0 else upload_whole path w0) of
             (Inl e, w1) \<Rightarrow> (Inl e, w1, s)
           | (Inr r, w1) \<Rightarrow>
               (case os_path_getmtime path w1 of
                  Inl e \<Rightarrow> (Inl e, w1, s)
                | Inr t \<Rightarrow>
                    (Inr (), w1,
                     s\<lparr>local_files := dict_set path \<lparr>revision = r, modified = t\<rparr> (local_files s),
                       remote_files := dict_set path \<lparr>revision = r, modified = t\<rparr> (remote_files s)\<rparr>))))"
    unfolding upload_def Let_def w0_def option.case by (rule refl)
  from assms obtain sz :: nat and r t where
    gs: "os_path_getsize path w0 = Inr sz" and
    tr: "(if sz > 140000000 then upload_session path w0 else upload_whole path w0) = (Inr r, w')"
    and mt: "os_path_getmtime path w' = Inr t"
    and s': "s' = s\<lparr>local_files := dict_set path \<lparr>revision = r, modified = t\<rparr> (local_files s),
                    remote_files := dict_set path \<lparr>revision = r, modified = t\<rparr> (remote_files s)\<rparr>"
    unfolding up by (fastforce split: sum.splits prod.splits)
  have w0: "fs w0 = fs w" "uploading (trace w0) = uploading (trace w) @ [(path, b)]"
    "uploaded_to (trace w0) = uploaded_to (trace w)"
    by (simp_all add: w0_def)
  from tr obtain c where rd: "read_file path w0 = Inr c"
    by (auto simp: upload_session_def upload_whole_def split: if_splits sum.splits)
  then obtain t0 where node0: "node_at w0 path = Some (File t0 c)"
    by (auto simp: read_file_def split: option.splits node.splits)
  with gs have sz: "sz = length c"
    by (simp add: os_path_getsize_def)
  have fr: "fs w' = fs w0 \<and> uploading (trace w') = uploading (trace w0) \<and>
         uploaded_to (trace w') = uploaded_to (trace w0) @ [os_path_join ''/'' path] \<and>
         map_of (store w') (os_path_join ''/'' path) = Some (RFile r c)"
  proof (cases "sz > 140000000")
    case True
    with tr have us: "upload_session path w0 = (Inr r, w')" by simp
    from True sz have "10000000 \<le> length c" by simp
    from upload_session_store [OF us rd this] upload_session_frame [OF us] show ?thesis by simp
  next
    case False
    with tr have uw: "upload_whole path w0 = (Inr r, w')" by simp
    from upload_whole_store [OF uw rd] upload_whole_frame [OF uw] show ?thesis by simp
  qed
  have "fs w' = fs w0" using fr by simp
  then have "node_at w' path = Some (File t0 c)"
    using node0 node_at_fs [of w' w0 path] by simp
  with mt have "t = t0"
    by (simp add: os_path_getmtime_def)
  moreover have "node_at w path = Some (File t0 c)"
    using node0 node_at_fs [OF w0(1), of path] by simp
  ultimately show ?thesis
    using fr w0 s' by simp
qed

lemma recorded_local_iff:
  "recorded_local w s s' p =
     (if local_decision w s p = []
      then map_of (local_files s') p = map_of (local_files s) p \<and>
           map_of (remote_files s') p = map_of (remote_files s) p
      else (\<exists>r t. os_path_getmtime p w = Inr t \<and>
              map_of (local_files s') p = Some \<lparr>revision = r, modified = t\<rparr> \<and>
              map_of (remote_files s') p = Some \<lparr>revision = r, modified = t\<rparr>))"
  unfolding recorded_local.simps
  by (auto simp: meta_eq split: option.splits sum.splits)

declare recorded_local.simps [simp del]

lemma local_decision_cases:
  "local_decision w s p = [] \<or> (\<exists>b. local_decision w s p = [(p, b)])"
  by (simp add: local_decision_def split: sum.splits option.splits)

lemma check_state_cases:
  assumes "check_state path w s = (Inr u, w', s')"
  shows "if local_decision w s path = [] then w' = w \<and> s' = s
         else \<exists>b. local_decision w s path = [(path, b)] \<and>
                upload path (Some b) w s = (Inr (), w', s')"
  using assms
  by (auto simp: check_state_def local_decision_def split: if_splits sum.splits option.splits)

lemma recorded_local_before:
  assumes "recorded_local w2 s2 s' q" and "fs w2 = fs w"
    and "map_of (local_files s2) q = map_of (local_files s) q"
    and "map_of (remote_files s2) q = map_of (remote_files s) q"
  shows "recorded_local w s s' q"
proof -
  have "local_decision w2 s2 q = local_decision w s q"
    using assms(2-4) by (rule local_decision_cong)
  with assms show ?thesis
    using os_path_getmtime_fs [OF assms(2), of q] by (auto simp: recorded_local_iff split: if_splits)
qed

lemma recorded_local_after:
  assumes "recorded_local w s s2 q"
    and "map_of (local_files s') q = map_of (local_files s2) q"
    and "map_of (remote_files s') q = map_of (remote_files s2) q"
  shows "recorded_local w s s' q"
  using assms by (auto simp: recorded_local_iff split: if_splits)

lemma check_state_pass:
  assumes "check_state path w s = (Inr u, w', s')"
  shows "fs w' = fs w \<and> uploading (trace w') = uploading (trace w) @ local_decision w s path \<and>
         uploaded_to (trace w') =
           uploaded_to (trace w) @ map (\<lambda>(p, b). os_path_join ''/'' p) (local_decision w s path) \<and>
         (\<forall>q. q \<noteq> path \<longrightarrow> map_of (local_files s') q = map_of (local_files s) q \<and>
                           map_of (remote_files s') q = map_of (remote_files s) q) \<and>
         local_decision w' s' path = [] \<and> recorded_local w s s' path"
proof (cases "local_decision w s path = []")
  case True
  with check_state_cases [OF assms] show ?thesis
    by (simp add: recorded_local_iff)
next
  case False
  with check_state_cases [OF assms] obtain b where b: "local_decision w s path = [(path, b)]"
    and up: "upload path (Some b) w s = (Inr (), w', s')"
    by auto
  from upload_effect [OF up] obtain r c t where
    e: "node_at w path = Some (File t c)" "fs w' = fs w"
    "uploading (trace w') = uploading (trace w) @ [(path, b)]"
    "uploaded_to (trace w') = uploaded_to (trace w) @ [os_path_join ''/'' path]"
    "s' = s\<lparr>local_files := dict_set path \<lparr>revision = r, modified = t\<rparr> (local_files s),
            remote_files := dict_set path \<lparr>revision = r, modified = t\<rparr> (remote_files s)\<rparr>"
    by blast
  have mt: "os_path_getmtime path w = Inr t" "os_path_getmtime path w' = Inr t"
    using e(1) node_at_fs [OF e(2), of path] by (simp_all add: os_path_getmtime_def)
  have maps: "map_of (local_files s') path = Some \<lparr>revision = r, modified = t\<rparr>"
    "map_of (remote_files s') path = Some \<lparr>revision = r, modified = t\<rparr>"
    by (simp_all add: e(5) dict_set_def update_conv')
  have settled: "local_decision w' s' path = []"
    by (simp add: local_decision_def has_key_def maps mt)
  have rec: "recorded_local w s s' path"
    using False mt(1) maps by (simp add: recorded_local_iff)
  have fr: "map_of (local_files s') q = map_of (local_files s) q \<and>
            map_of (remote_files s') q = map_of (remote_files s) q" if "q \<noteq> path" for q
    using that by (simp add: e(5) dict_set_def update_conv')
  show ?thesis
    using e(2,3,4) fr settled rec by (simp add: b)
qed

lemma firsts_snoc:
  "rev (remdups (rev (xs @ [p]))) =
     (if p \<in> set xs then rev (remdups (rev xs)) else rev (remdups (rev xs)) @ [p])"
  by simp

lemma check_states_pass:
  "check_states fl w s = (Inr (), w1, s1) \<Longrightarrow>
     fs w1 = fs w \<and>
     uploading (trace w1) =
       uploading (trace w) @ concat (map (local_decision w s) (rev (remdups (rev fl)))) \<and>
     uploaded_to (trace w1) =
       uploaded_to (trace w) @
         map (\<lambda>(p, b). os_path_join ''/'' p)
           (concat (map (local_decision w s) (rev (remdups (rev fl))))) \<and>
     (\<forall>q. q \<notin> set fl \<longrightarrow> map_of (local_files s1) q = map_of (local_files s) q \<and>
                          map_of (remote_files s1) q = map_of (remote_files s) q) \<and>
     (\<forall>q \<in> set fl. local_decision w1 s1 q = [] \<and> recorded_local w s s1 q)"
proof (induction fl arbitrary: w1 s1 rule: rev_induct)
  case Nil
  then show ?case by simp
next
  case (snoc p xs)
  from snoc.prems obtain w2 s2 where
    xs: "check_states xs w s = (Inr (), w2, s2)" and
    p: "check_state p w2 s2 = (Inr (), w1, s1)"
    by (auto simp: check_states_append and_then_def split: sum.splits prod.splits)
  from snoc.IH [OF xs] have
    i1: "fs w2 = fs w" and
    i2: "uploading (trace w2) =
           uploading (trace w) @ concat (map (local_decision w s) (rev (remdups (rev xs))))" and
    i3: "uploaded_to (trace w2) =
           uploaded_to (trace w) @
             map (\<lambda>(p, b). os_path_join ''/'' p)
               (concat (map (local_decision w s) (rev (remdups (rev xs)))))" and
    i4: "\<And>q. q \<notin> set xs \<Longrightarrow> map_of (local_files s2) q = map_of (local_files s) q \<and>
                           map_of (remote_files s2) q = map_of (remote_files s) q" and
    i5: "\<And>q. q \<in> set xs \<Longrightarrow> local_decision w2 s2 q = [] \<and> recorded_local w s s2 q"
    by blast+
  from check_state_pass [OF p] have
    h1: "fs w1 = fs w2" and
    h2: "uploading (trace w1) = uploading (trace w2) @ local_decision w2 s2 p" and
    h3: "uploaded_to (trace w1) =
           uploaded_to (trace w2) @ map (\<lambda>(p, b). os_path_join ''/'' p) (local_decision w2 s2 p)" and
    h4: "\<And>q. q \<noteq> p \<Longrightarrow> map_of (local_files s1) q = map_of (local_files s2) q \<and>
                          map_of (remote_files s1) q = map_of (remote_files s2) q" and
    h5: "local_decision w1 s1 p = []" and
    h6: "recorded_local w2 s2 s1 p"
    by blast+
  have c1: "fs w1 = fs w"
    by (simp add: h1 i1)
  have other: "local_decision w1 s1 q = [] \<and> recorded_local w s s1 q" if "q \<in> set xs" "q \<noteq> p" for q
  proof -
    from i5 [OF that(1)] have a: "local_decision w2 s2 q = []" "recorded_local w s s2 q"
      by simp_all
    have "local_decision w1 s1 q = local_decision w2 s2 q"
      using h1 h4 [OF that(2)] by (intro local_decision_cong) simp_all
    moreover have "recorded_local w s s1 q"
      using h4 [OF that(2)] by (intro recorded_local_after [OF a(2)]) simp_all
    ultimately show ?thesis using a(1) by simp
  qed
  show ?case
  proof (cases "p \<in> set xs")
    case True
    from i5 [OF True] have dec: "local_decision w2 s2 p = []" and rec: "recorded_local w s s2 p"
      by simp_all
    from h6 dec have same: "map_of (local_files s1) p = map_of (local_files s2) p"
      "map_of (remote_files s1) p = map_of (remote_files s2) p"
      by (simp_all add: recorded_local_iff)
    have c2: "uploading (trace w1) =
       uploading (trace w) @ concat (map (local_decision w s) (rev (remdups (rev (xs @ [p])))))"
      unfolding firsts_snoc using True by (simp add: h2 dec i2)
    have c3: "uploaded_to (trace w1) =
       uploaded_to (trace w) @
         map (\<lambda>(p, b). os_path_join ''/'' p)
           (concat (map (local_decision w s) (rev (remdups (rev (xs @ [p]))))))"
      unfolding firsts_snoc using True by (simp add: h3 dec i3)
    have c4: "map_of (local_files s1) q = map_of (local_files s) q \<and>
              map_of (remote_files s1) q = map_of (remote_files s) q" if "q \<notin> set (xs @ [p])" for q
      using that h4 [of q] i4 [of q] by simp
    have c5: "local_decision w1 s1 q = [] \<and> recorded_local w s s1 q" if "q \<in> set (xs @ [p])" for q
    proof (cases "q = p")
      case False
      with that other [of q] show ?thesis by simp
    next
      case qp: True
      have "recorded_local w s s1 p"
        using same by (intro recorded_local_after [OF rec]) simp_all
      with h5 qp show ?thesis by simp
    qed
    from c1 c2 c3 c4 c5 show ?thesis by blast
  next
    case False
    from i4 [OF False] have at_p: "map_of (local_files s2) p = map_of (local_files s) p"
      "map_of (remote_files s2) p = map_of (remote_files s) p"
      by simp_all
    have dec: "local_decision w2 s2 p = local_decision w s p"
      using i1 at_p by (intro local_decision_cong) simp_all
    have c2: "uploading (trace w1) =
       uploading (trace w) @ concat (map (local_decision w s) (rev (remdups (rev (xs @ [p])))))"
      unfolding firsts_snoc using False by (simp add: h2 dec i2)
    have c3: "uploaded_to (trace w1) =
       uploaded_to (trace w) @
         map (\<lambda>(p, b). os_path_join ''/'' p)
           (concat (map (local_decision w s) (rev (remdups (rev (xs @ [p]))))))"
      unfolding firsts_snoc using False by (simp add: h3 dec i3)
    have c4: "map_of (local_files s1) q = map_of (local_files s) q \<and>
              map_of (remote_files s1) q = map_of (remote_files s) q" if "q \<notin> set (xs @ [p])" for q
      using that h4 [of q] i4 [of q] by simp
    have c5: "local_decision w1 s1 q = [] \<and> recorded_local w s s1 q" if "q \<in> set (xs @ [p])" for q
    proof (cases "q = p")
      case False
      with that other [of q] show ?thesis by simp
    next
      case qp: True
      have "recorded_local w s s1 p"
        using i1 at_p by (intro recorded_local_before [OF h6]) simp_all
      with h5 qp show ?thesis by simp
    qed
    from c1 c2 c3 c4 c5 show ?thesis by blast
  qed
qed

lemma fs_files_delete [simp]: "fs (snd (files_delete p w)) = fs w"
  by (simp add: files_delete_def emit_def Let_def)

lemma delete_remotes_frame:
  "delete_remotes ks fl w s = (r, w', s') \<Longrightarrow>
     fs w' = fs w \<and> uploading (trace w') = uploading (trace w) \<and>
     uploaded_to (trace w') = uploaded_to (trace w) \<and>
     (\<forall>q \<in> set fl. map_of (local_files s') q = map_of (local_files s) q \<and>
                   map_of (remote_files s') q = map_of (remote_files s) q)"
proof (induction ks arbitrary: w s)
  case Nil
  then show ?case by simp
next
  case (Cons k ks)
  show ?case
  proof (cases "k \<notin> set fl")
    case False
    with Cons.prems have "delete_remotes ks fl w s = (r, w', s')"
      by (auto split: if_splits)
    from Cons.IH [OF this] show ?thesis .
  next
    case True
    obtain r1 w1 s1 where dl: "delete_remote k w s = (r1, w1, s1)"
      by (cases "delete_remote k w s") auto
    then have w1: "fs w1 = fs w" "uploading (trace w1) = uploading (trace w)"
      "uploaded_to (trace w1) = uploaded_to (trace w)"
      by (auto simp: delete_remote_def delete_maps_cases split: if_splits)
    have s1: "map_of (local_files s1) q = map_of (local_files s) q \<and>
              map_of (remote_files s1) q = map_of (remote_files s) q" if "q \<in> set fl" for q
    proof -
      from that True have "q \<noteq> k" by blast
      with dl show ?thesis
        by (auto simp: delete_remote_def delete_maps_cases delete_conv' split: if_splits)
    qed
    show ?thesis
    proof (cases r1)
      case (Inl x)
      with Cons.prems True dl have "w' = w1 \<and> s' = s1" by simp
      with w1 s1 show ?thesis by simp
    next
      case (Inr u)
      with Cons.prems True dl have "delete_remotes ks fl w1 s1 = (r, w', s')" by simp
      from Cons.IH [OF this] w1 s1 show ?thesis by simp
    qed
  qed
qed

lemma filelist_of_fs: "fs w' = fs w \<Longrightarrow> filelist_of w' = filelist_of w"
  by (simp add: filelist_of_def os_walk_def children_def fs_keys_def)

text \<open>
  C2. Let check_local return. The uploads of its first loop are those of the claim's table
  and nothing else: for every path of the list that the scan of the local tree produced, at
  the first place where the list has it, an upload if the path is not a key of
  \<^verbatim>\<open>remote_files\<close> or if the modification time of the file is greater than the recorded
  one, each path decided against the disk and the state the pass started with; the lines
  printed give the reason of each, and each upload commits to \<^verbatim>\<open>os.path.join('/', path)\<close>.
  The local files are not touched. For a path with no upload both maps keep their records;
  for an uploaded path both maps end with the same record, with the modification time of
  the file.

  The second half is one call of check_state, from whatever world and state the loop
  reaches the path with. Where the table says nothing, the call changes nothing. Where it
  says upload, the path is a local file; afterwards the app folder holds the content of
  that file under \<^verbatim>\<open>os.path.join('/', path)\<close>, and both maps record the revision it got there
  and the modification time of the file.
\<close>

theorem local_pass_uploads:
  "(check_local w s = (Inr (), w', s') \<longrightarrow>
      uploading (trace w') =
        uploading (trace w) @
          concat (map (local_decision w s) (rev (remdups (rev (filelist_of w))))) \<and>
      uploaded_to (trace w') =
        uploaded_to (trace w) @
          map (\<lambda>(p, b). os_path_join ''/'' p)
            (concat (map (local_decision w s) (rev (remdups (rev (filelist_of w)))))) \<and>
      fs w' = fs w \<and>
      (\<forall>p \<in> set (filelist_of w).
         if local_decision w s p = []
         then map_of (local_files s') p = map_of (local_files s) p \<and>
              map_of (remote_files s') p = map_of (remote_files s) p
         else (\<exists>r t. os_path_getmtime p w = Inr t \<and>
                 map_of (local_files s') p = Some \<lparr>revision = r, modified = t\<rparr> \<and>
                 map_of (remote_files s') p = Some \<lparr>revision = r, modified = t\<rparr>))) \<and>
   (check_state p0 w0 s0 = (Inr (), w1, s1) \<longrightarrow>
      (if local_decision w0 s0 p0 = [] then w1 = w0 \<and> s1 = s0
       else (\<exists>r c t. node_at w0 p0 = Some (File t c) \<and> fs w1 = fs w0 \<and>
               uploaded_to (trace w1) = uploaded_to (trace w0) @ [os_path_join ''/'' p0] \<and>
               map_of (store w1) (os_path_join ''/'' p0) = Some (RFile r c) \<and>
               s1 = s0\<lparr>local_files := dict_set p0 \<lparr>revision = r, modified = t\<rparr> (local_files s0),
                        remote_files := dict_set p0 \<lparr>revision = r, modified = t\<rparr> (remote_files s0)\<rparr>)))"
proof (intro conjI impI)
  assume run: "check_local w s = (Inr (), w', s')"
  define wa where "wa = py_print [Str (CHR 0x0A # ''Checking For New Or Updated Local Files'')] w"
  have wa: "fs wa = fs w" "uploading (trace wa) = uploading (trace w)"
    "uploaded_to (trace wa) = uploaded_to (trace w)"
    by (simp_all add: wa_def)
  have fl: "filelist_of wa = filelist_of w"
    using wa(1) by (rule filelist_of_fs)
  from run obtain wb sb where
    first: "check_states (filelist_of w) wa s = (Inr (), wb, sb)" and
    second: "delete_remotes (dict_keys (local_files sb)) (filelist_of w)
               (py_print [Str (CHR 0x0A # ''Checking For Deleted Local Files'')] wb) sb
             = (Inr (), w', s')"
    unfolding check_local_def wa_def [symmetric] fl
    by (auto split: sum.splits prod.splits)
  have dec: "local_decision wa s q = local_decision w s q" for q
    using wa(1) by (intro local_decision_cong) simp_all
  from check_states_pass [OF first] have
    a1: "fs wb = fs wa" and
    a2: "uploading (trace wb) =
           uploading (trace wa) @
             concat (map (local_decision w s) (rev (remdups (rev (filelist_of w)))))" and
    a3: "uploaded_to (trace wb) =
           uploaded_to (trace wa) @
             map (\<lambda>(p, b). os_path_join ''/'' p)
               (concat (map (local_decision w s) (rev (remdups (rev (filelist_of w))))))" and
    a5: "\<And>q. q \<in> set (filelist_of w) \<Longrightarrow> recorded_local wa s sb q"
    unfolding dec by blast+
  from delete_remotes_frame [OF second] have
    b1: "fs w' = fs wb" and
    b2: "uploading (trace w') = uploading (trace wb)" and
    b3: "uploaded_to (trace w') = uploaded_to (trace wb)" and
    b4: "\<And>q. q \<in> set (filelist_of w) \<Longrightarrow>
           map_of (local_files s') q = map_of (local_files sb) q \<and>
           map_of (remote_files s') q = map_of (remote_files sb) q"
    by simp_all
  show "uploading (trace w') =
        uploading (trace w) @
          concat (map (local_decision w s) (rev (remdups (rev (filelist_of w)))))"
    by (simp add: b2 a2 wa)
  show "uploaded_to (trace w') =
        uploaded_to (trace w) @
          map (\<lambda>(p, b). os_path_join ''/'' p)
            (concat (map (local_decision w s) (rev (remdups (rev (filelist_of w))))))"
    by (simp add: b3 a3 wa)
  show "fs w' = fs w"
    by (simp add: b1 a1 wa)
  show "\<forall>p \<in> set (filelist_of w).
         if local_decision w s p = []
         then map_of (local_files s') p = map_of (local_files s) p \<and>
              map_of (remote_files s') p = map_of (remote_files s) p
         else (\<exists>r t. os_path_getmtime p w = Inr t \<and>
                 map_of (local_files s') p = Some \<lparr>revision = r, modified = t\<rparr> \<and>
                 map_of (remote_files s') p = Some \<lparr>revision = r, modified = t\<rparr>)"
  proof
    fix p
    assume p: "p \<in> set (filelist_of w)"
    have "recorded_local w s sb p"
      using wa(1) by (intro recorded_local_before [OF a5 [OF p]]) simp_all
    then have "recorded_local w s s' p"
      using b4 [OF p] by (intro recorded_local_after [of w s sb p s']) simp_all
    then show "if local_decision w s p = []
         then map_of (local_files s') p = map_of (local_files s) p \<and>
              map_of (remote_files s') p = map_of (remote_files s) p
         else (\<exists>r t. os_path_getmtime p w = Inr t \<and>
                 map_of (local_files s') p = Some \<lparr>revision = r, modified = t\<rparr> \<and>
                 map_of (remote_files s') p = Some \<lparr>revision = r, modified = t\<rparr>)"
      unfolding recorded_local_iff .
  qed
next
  assume st: "check_state p0 w0 s0 = (Inr (), w1, s1)"
  note c = check_state_cases [OF st]
  show "if local_decision w0 s0 p0 = [] then w1 = w0 \<and> s1 = s0
       else (\<exists>r c t. node_at w0 p0 = Some (File t c) \<and> fs w1 = fs w0 \<and>
               uploaded_to (trace w1) = uploaded_to (trace w0) @ [os_path_join ''/'' p0] \<and>
               map_of (store w1) (os_path_join ''/'' p0) = Some (RFile r c) \<and>
               s1 = s0\<lparr>local_files := dict_set p0 \<lparr>revision = r, modified = t\<rparr> (local_files s0),
                        remote_files := dict_set p0 \<lparr>revision = r, modified = t\<rparr> (remote_files s0)\<rparr>)"
  proof (cases "local_decision w0 s0 p0 = []")
    case True
    with c show ?thesis by simp
  next
    case False
    with c obtain b where "upload p0 (Some b) w0 s0 = (Inr (), w1, s1)"
      by auto
    from upload_effect [OF this] False show ?thesis
      by simp blast
  qed
qed

lemma filelist_ex_scan: "filelist_of ex_scan = [''a'', ''b'', ''n'']"
  by (simp add: model_defs ex_scan_def)

lemma run_ex_scan: "outcome (check_local ex_scan ex_b_older) = Inr ()"
  by (simp add: model_defs ex_scan_def ex_b_older_def ex_meta_def)

lemma step_ex_scan: "outcome (check_state ''n'' ex_scan ex_b_older) = Inr ()"
  by (simp add: model_defs ex_scan_def ex_b_older_def ex_meta_def)

theorem local_pass_uploads_witness:
  "outcome (check_local ex_scan ex_b_older) = Inr () \<and>
   uploading (trace (world_after (check_local ex_scan ex_b_older))) =
     [(''b'', ''-- Local File Changed''), (''n'', ''-- Not Found Remotely'')] \<and>
   uploaded_to (trace (world_after (check_local ex_scan ex_b_older))) = [''/b'', ''/n''] \<and>
   map_of (local_files (state_after (check_local ex_scan ex_b_older))) ''a'' = Some ex_meta \<and>
   (\<exists>r. map_of (local_files (state_after (check_local ex_scan ex_b_older))) ''b'' =
          Some \<lparr>revision = r, modified = 7\<rparr> \<and>
        map_of (remote_files (state_after (check_local ex_scan ex_b_older))) ''b'' =
          Some \<lparr>revision = r, modified = 7\<rparr>) \<and>
   (\<exists>r. map_of (local_files (state_after (check_local ex_scan ex_b_older))) ''n'' =
          Some \<lparr>revision = r, modified = 3\<rparr> \<and>
        map_of (remote_files (state_after (check_local ex_scan ex_b_older))) ''n'' =
          Some \<lparr>revision = r, modified = 3\<rparr>) \<and>
   (\<exists>r. map_of (store (world_after (check_state ''n'' ex_scan ex_b_older))) ''/n'' =
          Some (RFile r ''new''))"
proof -
  have run: "check_local ex_scan ex_b_older =
      (Inr (), world_after (check_local ex_scan ex_b_older),
       state_after (check_local ex_scan ex_b_older))"
    using run_ex_scan by (cases "check_local ex_scan ex_b_older") simp
  have step: "check_state ''n'' ex_scan ex_b_older =
      (Inr (), world_after (check_state ''n'' ex_scan ex_b_older),
       state_after (check_state ''n'' ex_scan ex_b_older))"
    using step_ex_scan by (cases "check_state ''n'' ex_scan ex_b_older") simp
  have dec: "local_decision ex_scan ex_b_older ''a'' = []"
    "local_decision ex_scan ex_b_older ''b'' = [(''b'', ''-- Local File Changed'')]"
    "local_decision ex_scan ex_b_older ''n'' = [(''n'', ''-- Not Found Remotely'')]"
    by (simp_all add: local_decision_def has_key_def os_path_getmtime_def node_at_def comps_def
          ex_scan_def ex_b_older_def ex_meta_def)
  have st: "trace ex_scan = []"
    "map_of (local_files ex_b_older) ''a'' = Some ex_meta"
    "os_path_getmtime ''b'' ex_scan = Inr 7" "os_path_getmtime ''n'' ex_scan = Inr 3"
    "node_at ex_scan ''n'' = Some (File 3 ''new'')"
    by (simp_all add: os_path_getmtime_def node_at_def comps_def ex_scan_def ex_b_older_def)
  have j: "os_path_join ''/'' ''b'' = ''/b''" "os_path_join ''/'' ''n'' = ''/n''"
    by (simp_all add: os_path_join_def startswith_def endswith_def)
  note T = local_pass_uploads [of ex_scan ex_b_older "world_after (check_local ex_scan ex_b_older)"
      "state_after (check_local ex_scan ex_b_older)" "''n''" ex_scan ex_b_older
      "world_after (check_state ''n'' ex_scan ex_b_older)"
      "state_after (check_state ''n'' ex_scan ex_b_older)",
      unfolded filelist_ex_scan]
  from T run step show ?thesis
    by (auto simp: dec st j run_ex_scan)
qed

end
